theory Spec2Isabelle
  imports Complex_Main "HOL-Library.Sublist"
begin

section \<open>Paint shop production sequence optimizer\<close>

text \<open>
  A shallow embedding of \<^verbatim>\<open>paint_shop_optimizer.py\<close> (class \<^verbatim>\<open>PaintShopOptimizer\<close>).
  Every method is a function of the attributes it reads (\<^verbatim>\<open>self.batch_size\<close>,
  \<^verbatim>\<open>self.vehicles_df\<close>, \<^verbatim>\<open>self.paint_summary\<close>, \<^verbatim>\<open>self.solution_df\<close>) and returns
  the values it stores or returns. A data frame is the list of its rows, in row order.
  Printing is left out. The CBC solver is a parameter: a function from the built
  problem to the values of its variables.
\<close>

subsection \<open>Exceptions\<close>

text \<open>
  The exceptions the modelled statements raise. The source defines no exception class
  of its own: \<^verbatim>\<open>ValueError\<close> is the only one it raises itself, the others come from
  the dictionaries, pandas and PuLP it calls.
\<close>

datatype error = KeyError | ValueError | IntCastingNaNError | OverflowError | PulpError

subsection \<open>Tables\<close>

text \<open>
  A row of \<^verbatim>\<open>vehicles_df\<close>. A cell of the paint column that is empty in the sheet is
  read as NaN: \<open>None\<close>. Timestamps are counted in minutes; NaT is \<open>None\<close>.
\<close>

record vehicle =
  vin :: string
  paint :: "string option"
  production_sequence :: int
  planned_ga_in_datetime :: "int option"

text \<open>A row of \<^verbatim>\<open>paint_summary\<close>.\<close>

record paint_row =
  paint_code :: string
  vehicle_count :: int
  full_batches :: int
  remainder :: int
  total_batches :: int

text \<open>A row of the batch sequence \<^verbatim>\<open>batch_df\<close>.\<close>

record batch_row =
  batch_position :: int
  b_paint_code :: string

text \<open>
  A row of \<^verbatim>\<open>solution_df\<close>; the timestamp column exists once \<^verbatim>\<open>update_timestamps\<close>
  has run (\<open>None\<close> before, \<open>Some None\<close> is NaT).
\<close>

record solution_row =
  s_vin :: string
  s_paint :: "string option"
  s_batch_id :: int
  s_production_sequence :: int
  s_original_sequence :: int
  s_planned_ga_in_datetime :: "int option option"

subsection \<open>analyze\_paint\_distribution\<close>

text \<open>
  \<^verbatim>\<open>Series.value_counts()\<close>: NaN is dropped, every other value is counted, the most
  frequent first. Values of equal count are kept in the order of their first row.
\<close>

definition value_counts :: "string option list \<Rightarrow> (string \<times> int) list" where
  "value_counts col =
     (let present = map the (filter (\<lambda>p. p \<noteq> None) col);
          keys = rev (remdups (rev present))
      in sort_key (\<lambda>(c, n). - n) (map (\<lambda>c. (c, int (count_list present c))) keys))"

text \<open>
  \<^verbatim>\<open>np.ceil(vehicle_count / batch_size).astype(int)\<close> for a batch size other than 0.
  The quotient of two integers below \<open>2^53\<close> in absolute value is rounded to a double
  that is an integer only if the exact quotient is one, so the ceiling is exact.
\<close>

definition ceil_div :: "int \<Rightarrow> int \<Rightarrow> int" where
  "ceil_div n d = \<lceil>(of_int n :: rat) / of_int d\<rceil>"

text \<open>
  The counts are a column of 64-bit integers. \<^verbatim>\<open>vehicle_count // self.batch_size\<close> converts
  the batch size to that type, and raises \<^verbatim>\<open>OverflowError\<close> for a batch size outside it.
\<close>

definition fits_int64 :: "int \<Rightarrow> bool" where
  "fits_int64 n = (- 9223372036854775808 \<le> n \<and> n \<le> 9223372036854775807)"

text \<open>
  With \<^verbatim>\<open>batch_size = 0\<close> the quotients are infinite and \<^verbatim>\<open>astype(int)\<close> raises on
  the first of them (an empty column has none).
\<close>

definition analyze_paint_distribution :: "int \<Rightarrow> vehicle list \<Rightarrow> error + paint_row list" where
  "analyze_paint_distribution batch_size vehicles_df =
     (let paint_counts = value_counts (map paint vehicles_df)
      in if \<not> fits_int64 batch_size then Inl OverflowError
         else if batch_size = 0 \<and> paint_counts \<noteq> [] then Inl IntCastingNaNError
         else Inr (sort_key (\<lambda>r. - vehicle_count r)
           (map (\<lambda>(c, n).
              \<lparr>paint_code = c, vehicle_count = n,
               full_batches = n div batch_size,
               remainder = n mod batch_size,
               total_batches = ceil_div n batch_size\<rparr>) paint_counts)))"

subsection \<open>Doubles\<close>

text \<open>
  \<^verbatim>\<open>calculate_ideal_positions\<close> computes in IEEE 754 binary64. A finite double is the
  rational it denotes; \<open>float64\<close> rounds a rational to the nearest double, ties to the
  even significand (53 bits). The exponent range is not modelled: the quotient and
  the products of 64-bit integers stay far inside it.
\<close>

function bit_length :: "int \<Rightarrow> int" where
  "bit_length n = (if n \<le> 0 then 0 else 1 + bit_length (n div 2))"
  by pat_completeness auto
termination
  by (relation "measure nat") auto

declare bit_length.simps [simp del]

definition pow2 :: "int \<Rightarrow> rat" where
  "pow2 e = (if 0 \<le> e then 2 ^ nat e else 1 / 2 ^ nat (- e))"

text \<open>\<open>ilog2 q\<close> is the \<open>e\<close> with \<open>2^e \<le> q < 2^(e+1)\<close>, for \<open>q > 0\<close>.\<close>

definition ilog2 :: "rat \<Rightarrow> int" where
  "ilog2 q =
     (let (a, b) = quotient_of q;
          d = bit_length a - bit_length b
      in if pow2 d \<le> q then d else d - 1)"

definition round_half_even :: "rat \<Rightarrow> int" where
  "round_half_even q =
     (let f = \<lfloor>q\<rfloor>; r = q - of_int f
      in if r < 1 / 2 then f
         else if 1 / 2 < r then f + 1
         else if even f then f else f + 1)"

definition float64 :: "rat \<Rightarrow> rat" where
  "float64 q =
     (if q = 0 then 0
      else let e = ilog2 \<bar>q\<bar> - 52
           in of_int (round_half_even (q / pow2 e)) * pow2 e)"

text \<open>\<^verbatim>\<open>int(x)\<close> of a float: towards zero.\<close>

definition trunc :: "rat \<Rightarrow> int" where
  "trunc q = (if 0 \<le> q then \<lfloor>q\<rfloor> else \<lceil>q\<rceil>)"

subsection \<open>calculate\_ideal\_positions\<close>

text \<open>
  \<^verbatim>\<open>spacing = total_batches / num_batches\<close> is a double and so is each product
  \<^verbatim>\<open>i * spacing\<close>. For \<^verbatim>\<open>num_batches <= 0\<close> the range is empty and \<open>spacing\<close> (infinite
  or NaN for 0, with numpy's warning silenced) is not used.
\<close>

definition calculate_ideal_positions :: "string \<Rightarrow> int \<Rightarrow> int \<Rightarrow> int list" where
  "calculate_ideal_positions pcode num_batches n_total =
     (if num_batches = 1 then [n_total div 2]
      else let spacing = float64 (float64 (of_int n_total) / float64 (of_int num_batches))
           in map (\<lambda>i. trunc (float64 (float64 (of_int (int i)) * spacing)))
                [0..<nat num_batches])"

subsection \<open>The MILP problem\<close>

text \<open>
  The variables: \<open>X c b\<close> is \<^verbatim>\<open>x[c, b]\<close> (binary), \<open>Y b\<close> is \<^verbatim>\<open>y[b]\<close> (binary) and
  \<open>Dev c i b\<close> is \<^verbatim>\<open>dev[c, i, b]\<close> (continuous, lower bound 0).
\<close>

datatype var = X string nat | Y nat | Dev string nat nat

text \<open>An affine expression: its terms (coefficient, variable) and its constant.\<close>

type_synonym linexpr = "(int \<times> var) list \<times> int"

datatype sense = EQ | GE

record lp_constraint =
  c_name :: string
  c_lhs :: linexpr
  c_sense :: sense
  c_rhs :: linexpr

record lp_problem =
  lp_constraints :: "lp_constraint list"
  lp_objective :: linexpr

definition eval_expr :: "(var \<Rightarrow> real) \<Rightarrow> linexpr \<Rightarrow> real" where
  "eval_expr v e = (\<Sum>(a, x) \<leftarrow> fst e. of_int a * v x) + of_int (snd e)"

definition satisfies :: "(var \<Rightarrow> real) \<Rightarrow> lp_constraint \<Rightarrow> bool" where
  "satisfies v c =
     (case c_sense c of
        EQ \<Rightarrow> eval_expr v (c_lhs c) = eval_expr v (c_rhs c)
      | GE \<Rightarrow> eval_expr v (c_rhs c) \<le> eval_expr v (c_lhs c))"

definition feasible :: "(var \<Rightarrow> real) \<Rightarrow> lp_problem \<Rightarrow> bool" where
  "feasible v prob = list_all (satisfies v) (lp_constraints prob)"

text \<open>\<^verbatim>\<open>str(b)\<close> of an index \<open>b \<ge> 0\<close>.\<close>

fun string_of_nat :: "nat \<Rightarrow> string" where
  "string_of_nat n =
     (if n < 10 then [''0123456789'' ! n]
      else string_of_nat (n div 10) @ [''0123456789'' ! (n mod 10)])"

declare string_of_nat.simps [simp del]

text \<open>
  PuLP stores a constraint under its name, in which it replaces each of the five
  characters minus, plus, opening and closing square bracket and space by an
  underscore, and refuses a name that is already taken. (The greater-than sign and the
  slash are replaced in the names of variables only.)
\<close>

definition sanitize :: "string \<Rightarrow> string" where
  "sanitize s = map (\<lambda>ch. if ch \<in> set ''-+[] '' then CHR ''_'' else ch) s"

definition add_constraint :: "lp_problem \<Rightarrow> lp_constraint \<Rightarrow> error + lp_problem" where
  "add_constraint prob c =
     (let c' = c\<lparr>c_name := sanitize (c_name c)\<rparr>
      in if c_name c' \<in> set (map c_name (lp_constraints prob)) then Inl PulpError
         else Inr (prob\<lparr>lp_constraints := lp_constraints prob @ [c']\<rparr>))"

fun add_constraints :: "lp_problem \<Rightarrow> lp_constraint list \<Rightarrow> error + lp_problem" where
  "add_constraints prob [] = Inr prob"
| "add_constraints prob (c # cs) =
     (case add_constraint prob c of
        Inl e \<Rightarrow> Inl e
      | Inr prob' \<Rightarrow> add_constraints prob' cs)"

text \<open>Constraint 1: each batch assigned to exactly one paint.\<close>

definition one_paint_per_batch :: "string list \<Rightarrow> int \<Rightarrow> lp_constraint list" where
  "one_paint_per_batch paint_codes n_total =
     map (\<lambda>b. \<lparr>c_name = ''one_paint_per_batch_'' @ string_of_nat b,
               c_lhs = (map (\<lambda>c. (1, X c b)) paint_codes, 0),
               c_sense = EQ,
               c_rhs = ([], 1)\<rparr>) [0..<nat n_total]"

text \<open>Constraint 2: each paint gets its required number of batches.\<close>

definition batch_count :: "string list \<Rightarrow> (string \<Rightarrow> int) \<Rightarrow> int \<Rightarrow> lp_constraint list" where
  "batch_count paint_codes paint_batches n_total =
     map (\<lambda>c. \<lparr>c_name = ''batch_count_'' @ c,
               c_lhs = (map (\<lambda>b. (1, X c b)) [0..<nat n_total], 0),
               c_sense = EQ,
               c_rhs = ([], paint_batches c)\<rparr>) paint_codes"

text \<open>Constraint 3: changeover detection, for the batches from 1 on.\<close>

definition changeover_detect :: "string list \<Rightarrow> int \<Rightarrow> lp_constraint list" where
  "changeover_detect paint_codes n_total =
     concat (map (\<lambda>b. map (\<lambda>c.
        \<lparr>c_name = ''changeover_detect_'' @ c @ ''_'' @ string_of_nat b,
         c_lhs = ([(1, Y b)], 0),
         c_sense = GE,
         c_rhs = ([(1, X c b), (- 1, X c (b - 1))], 0)\<rparr>) paint_codes) [1..<nat n_total])"

text \<open>The first batch is always a changeover (setup).\<close>

definition first_batch_setup :: lp_constraint where
  "first_batch_setup =
     \<lparr>c_name = ''first_batch_setup'', c_lhs = ([(1, Y 0)], 0), c_sense = EQ, c_rhs = ([], 1)\<rparr>"

text \<open>Constraint 4: the deviation of a paint's \<open>i\<close>-th batch from its ideal position.\<close>

definition dev_pos :: "string \<Rightarrow> nat \<Rightarrow> nat \<Rightarrow> int \<Rightarrow> lp_constraint" where
  "dev_pos c i b ideal_pos =
     \<lparr>c_name = ''dev_pos_'' @ c @ ''_'' @ string_of_nat i @ ''_'' @ string_of_nat b,
      c_lhs = ([(1, Dev c i b)], 0),
      c_sense = GE,
      c_rhs = ([(int b - ideal_pos, X c b)], 0)\<rparr>"

definition dev_neg :: "string \<Rightarrow> nat \<Rightarrow> nat \<Rightarrow> int \<Rightarrow> lp_constraint" where
  "dev_neg c i b ideal_pos =
     \<lparr>c_name = ''dev_neg_'' @ c @ ''_'' @ string_of_nat i @ ''_'' @ string_of_nat b,
      c_lhs = ([(1, Dev c i b)], 0),
      c_sense = GE,
      c_rhs = ([(ideal_pos - int b, X c b)], 0)\<rparr>"

definition deviation ::
  "string list \<Rightarrow> (string \<Rightarrow> int) \<Rightarrow> (string \<Rightarrow> int list) \<Rightarrow> int \<Rightarrow> lp_constraint list" where
  "deviation paint_codes paint_batches ideal_positions n_total =
     concat (map (\<lambda>c. concat (map (\<lambda>i. concat (map (\<lambda>b.
        [dev_pos c i b (ideal_positions c ! i), dev_neg c i b (ideal_positions c ! i)])
        [0..<nat n_total])) [0..<nat (paint_batches c)])) paint_codes)"

text \<open>The objective: changeovers with weight 1000, deviations with weight 1.\<close>

definition objective :: "string list \<Rightarrow> (string \<Rightarrow> int) \<Rightarrow> int \<Rightarrow> linexpr" where
  "objective paint_codes paint_batches n_total =
     (let changeover_weight = 1000; levelload_weight = 1
      in (map (\<lambda>b. (changeover_weight, Y b)) [0..<nat n_total] @
          concat (map (\<lambda>c. concat (map (\<lambda>i. map (\<lambda>b. (levelload_weight, Dev c i b))
            [0..<nat n_total]) [0..<nat (paint_batches c)])) paint_codes), 0))"

text \<open>
  \<^verbatim>\<open>dict(zip(paint_code, total_batches))\<close>: the last row of a paint code wins. It is
  read at the paint codes of the summary only.
\<close>

definition paint_batches_of :: "paint_row list \<Rightarrow> string \<Rightarrow> int" where
  "paint_batches_of paint_summary c =
     (case map_of (rev (map (\<lambda>r. (paint_code r, total_batches r)) paint_summary)) c of
        Some n \<Rightarrow> n
      | None \<Rightarrow> 0)"

definition schedule_length :: "paint_row list \<Rightarrow> int" where
  "schedule_length paint_summary = sum_list (map total_batches paint_summary)"

text \<open>
  The model construction of \<^verbatim>\<open>optimize_sequence_milp\<close>. \<^verbatim>\<open>y\<close> has the keys
  \<^verbatim>\<open>range(total_batches)\<close>, so \<^verbatim>\<open>y[0]\<close> is a \<^verbatim>\<open>KeyError\<close> when there is no batch.
\<close>

definition build_model :: "paint_row list \<Rightarrow> error + lp_problem" where
  "build_model paint_summary =
     (let paint_codes = map paint_code paint_summary;
          paint_batches = paint_batches_of paint_summary;
          n_total = schedule_length paint_summary;
          ideal_positions = (\<lambda>c. calculate_ideal_positions c (paint_batches c) n_total);
          prob = \<lparr>lp_constraints = [], lp_objective = ([], 0)\<rparr>
      in case add_constraints prob (one_paint_per_batch paint_codes n_total) of
           Inl e \<Rightarrow> Inl e
         | Inr prob1 \<Rightarrow>
       (case add_constraints prob1 (batch_count paint_codes paint_batches n_total) of
           Inl e \<Rightarrow> Inl e
         | Inr prob2 \<Rightarrow>
       (case add_constraints prob2 (changeover_detect paint_codes n_total) of
           Inl e \<Rightarrow> Inl e
         | Inr prob3 \<Rightarrow>
       if n_total \<le> 0 then Inl KeyError
       else (case add_constraint prob3 first_batch_setup of
           Inl e \<Rightarrow> Inl e
         | Inr prob4 \<Rightarrow>
       (case add_constraints prob4
               (deviation paint_codes paint_batches ideal_positions n_total) of
           Inl e \<Rightarrow> Inl e
         | Inr prob5 \<Rightarrow>
       Inr (prob5\<lparr>lp_objective := objective paint_codes paint_batches n_total\<rparr>))))))"

text \<open>
  What the construction stores: the constraint under its name with the replaced
  characters, and the names that must not overlap. \<open>constraints_before_setup\<close> are
  the constraints added before \<^verbatim>\<open>y[0]\<close> is read, \<open>model_constraints\<close> all of them, in
  the order of the source.
\<close>

definition sanitized :: "lp_constraint \<Rightarrow> lp_constraint" where
  "sanitized c = c\<lparr>c_name := sanitize (c_name c)\<rparr>"

definition constraint_names :: "lp_constraint list \<Rightarrow> string list" where
  "constraint_names cs = map (\<lambda>c. sanitize (c_name c)) cs"

definition constraints_before_setup :: "paint_row list \<Rightarrow> lp_constraint list" where
  "constraints_before_setup paint_summary =
     (let paint_codes = map paint_code paint_summary;
          n_total = schedule_length paint_summary
      in one_paint_per_batch paint_codes n_total @
         batch_count paint_codes (paint_batches_of paint_summary) n_total @
         changeover_detect paint_codes n_total)"

definition model_constraints :: "paint_row list \<Rightarrow> lp_constraint list" where
  "model_constraints paint_summary =
     (let paint_codes = map paint_code paint_summary;
          paint_batches = paint_batches_of paint_summary;
          n_total = schedule_length paint_summary
      in constraints_before_setup paint_summary @ [first_batch_setup] @
         deviation paint_codes paint_batches
           (\<lambda>c. calculate_ideal_positions c (paint_batches c) n_total) n_total)"

subsection \<open>Solution extraction\<close>

text \<open>The inner loop over the paint codes: the first one above 0.5 is taken (\<^verbatim>\<open>break\<close>).\<close>

fun first_assigned :: "(var \<Rightarrow> real) \<Rightarrow> string list \<Rightarrow> nat \<Rightarrow> string option" where
  "first_assigned v [] b = None"
| "first_assigned v (c # cs) b = (if 0.5 < v (X c b) then Some c else first_assigned v cs b)"

definition extract_solution :: "(var \<Rightarrow> real) \<Rightarrow> string list \<Rightarrow> int \<Rightarrow> batch_row list" where
  "extract_solution v paint_codes n_total =
     concat (map (\<lambda>b. case first_assigned v paint_codes b of
                         None \<Rightarrow> []
                       | Some c \<Rightarrow> [\<lparr>batch_position = int b, b_paint_code = c\<rparr>])
       [0..<nat n_total])"

definition count_changeovers :: "(var \<Rightarrow> real) \<Rightarrow> int \<Rightarrow> int" where
  "count_changeovers v n_total = int (length (filter (\<lambda>b. 0.5 < v (Y b)) [0..<nat n_total]))"


subsection \<open>assign\_vehicles\_to\_batches\<close>

text \<open>\<^verbatim>\<open>DataFrame.head(n)\<close>: the first \<open>n\<close> rows, all but the last \<open>-n\<close> for a negative \<open>n\<close>.\<close>

definition head_df :: "int \<Rightarrow> 'a list \<Rightarrow> 'a list" where
  "head_df n xs = (if 0 \<le> n then take (nat n) xs else take (length xs - nat (- n)) xs)"

text \<open>The inner loop: one row per vehicle of the batch, numbered by \<^verbatim>\<open>current_seq\<close>.\<close>

fun append_vehicles ::
  "int \<Rightarrow> vehicle list \<Rightarrow> solution_row list \<times> int \<Rightarrow> solution_row list \<times> int" where
  "append_vehicles batch_pos [] st = st"
| "append_vehicles batch_pos (vehicle # rest) (vehicle_assignments, current_seq) =
     append_vehicles batch_pos rest
       (vehicle_assignments @
          [\<lparr>s_vin = vin vehicle, s_paint = paint vehicle, s_batch_id = batch_pos + 1,
            s_production_sequence = current_seq,
            s_original_sequence = production_sequence vehicle,
            s_planned_ga_in_datetime = None\<rparr>],
        current_seq + 1)"

text \<open>
  The outer loop: the vehicles of the batch's paint whose VIN is not assigned yet, in
  the row order of \<^verbatim>\<open>vehicles_df\<close>, the first \<^verbatim>\<open>batch_size\<close> of them.
\<close>

definition paint_vehicles ::
  "int \<Rightarrow> vehicle list \<Rightarrow> solution_row list \<Rightarrow> string \<Rightarrow> vehicle list" where
  "paint_vehicles batch_size vehicles_df vehicle_assignments p =
     head_df batch_size
       (filter (\<lambda>v. paint v = Some p \<and> vin v \<notin> set (map s_vin vehicle_assignments))
          vehicles_df)"

fun assign_loop ::
  "int \<Rightarrow> vehicle list \<Rightarrow> batch_row list \<Rightarrow> solution_row list \<times> int \<Rightarrow>
   solution_row list \<times> int" where
  "assign_loop batch_size vehicles_df [] st = st"
| "assign_loop batch_size vehicles_df (batch # rest) (vehicle_assignments, current_seq) =
     assign_loop batch_size vehicles_df rest
       (append_vehicles (batch_position batch)
          (paint_vehicles batch_size vehicles_df vehicle_assignments (b_paint_code batch))
          (vehicle_assignments, current_seq))"

text \<open>The rows that the inner loop adds for the vehicles of one batch.\<close>

fun batch_rows :: "int \<Rightarrow> int \<Rightarrow> vehicle list \<Rightarrow> solution_row list" where
  "batch_rows batch_pos current_seq [] = []"
| "batch_rows batch_pos current_seq (vehicle # rest) =
     \<lparr>s_vin = vin vehicle, s_paint = paint vehicle, s_batch_id = batch_pos + 1,
      s_production_sequence = current_seq,
      s_original_sequence = production_sequence vehicle,
      s_planned_ga_in_datetime = None\<rparr> # batch_rows batch_pos (current_seq + 1) rest"

text \<open>
  A batch sequence without rows is a frame without columns (\<^verbatim>\<open>pd.DataFrame([])\<close>), and
  sorting it by \<^verbatim>\<open>batch_position\<close> is a \<^verbatim>\<open>KeyError\<close>.
\<close>

definition assign_vehicles_to_batches ::
  "int \<Rightarrow> vehicle list \<Rightarrow> batch_row list \<Rightarrow> error + solution_row list" where
  "assign_vehicles_to_batches batch_size vehicles_df batch_sequence =
     (if batch_sequence = [] then Inl KeyError
      else Inr (fst (assign_loop batch_size vehicles_df
                  (sort_key batch_position batch_sequence) ([], 1))))"

text \<open>
  Two invariants of the outer loop. \<open>order_kept\<close>: the rows assigned to a paint code so
  far come, in their order, from a first part of the table's vehicles of that paint,
  and every vehicle of that part has its VIN assigned. \<open>filled\<close>: after \<open>k c\<close> batches of
  each paint code \<open>c\<close>, the VINs assigned to \<open>c\<close> are those of the first \<open>batch_size * k c\<close>
  vehicles of that paint in the table.
\<close>

definition order_kept :: "vehicle list \<Rightarrow> string \<Rightarrow> solution_row list \<Rightarrow> bool" where
  "order_kept vdf c va =
     (\<exists>pre post.
        filter (\<lambda>v. paint v = Some c) vdf = pre @ post \<and>
        subseq (map (\<lambda>r. (s_vin r, s_original_sequence r)) (filter (\<lambda>r. s_paint r = Some c) va))
               (map (\<lambda>v. (vin v, production_sequence v)) pre) \<and>
        (\<forall>u \<in> set pre. vin u \<in> set (map s_vin va)))"

definition filled ::
  "int \<Rightarrow> vehicle list \<Rightarrow> (string \<Rightarrow> nat) \<Rightarrow> solution_row list \<Rightarrow> bool" where
  "filled bs vdf k va =
     ((\<forall>c. map s_vin (filter (\<lambda>r. s_paint r = Some c) va) =
            take (nat bs * k c) (map vin (filter (\<lambda>v. paint v = Some c) vdf))) \<and>
      (\<forall>r \<in> set va. s_paint r \<noteq> None))"

subsection \<open>update\_timestamps\<close>

text \<open>
  The minimum of the timestamp column, NaT skipped; NaT for a column without values.
  The range of pandas' timestamps is not modelled: a sum outside it raises inside the
  list comprehension, before the column is written.
\<close>

definition min_datetime :: "int option list \<Rightarrow> int option" where
  "min_datetime col =
     (case map the (filter (\<lambda>t. t \<noteq> None) col) of
        [] \<Rightarrow> None
      | t # ts \<Rightarrow> Some (fold min ts t))"

definition update_timestamps ::
  "vehicle list \<Rightarrow> solution_row list \<Rightarrow> int option \<Rightarrow> int \<Rightarrow> solution_row list" where
  "update_timestamps vehicles_df solution_df start_datetime increment_minutes =
     (let start = (case start_datetime of
                     None \<Rightarrow> min_datetime (map planned_ga_in_datetime vehicles_df)
                   | Some t \<Rightarrow> Some t)
      in map (\<lambda>(i, row).
                row\<lparr>s_planned_ga_in_datetime :=
                      Some (map_option (\<lambda>t. t + int i * increment_minutes) start)\<rparr>)
           (enumerate 0 solution_df))"

subsection \<open>generate\_summary\_metrics\<close>

record metrics =
  total_vehicles :: nat
  unique_paint_codes :: nat
  m_total_batches :: nat
  total_changeovers :: nat
  changeover_rate :: rat
  paint_distribution_per_100 :: "string \<Rightarrow> rat option"
  changeover_positions :: "int list"

text \<open>
  The changeover loop. \<open>prev_paint\<close> is \<open>None\<close> before the first row; a NaN paint
  differs from every paint, itself included.
\<close>

fun changeover_loop ::
  "solution_row list \<Rightarrow> string option option \<Rightarrow> int list \<Rightarrow> int list" where
  "changeover_loop [] prev_paint changeovers = changeovers"
| "changeover_loop (row # rest) prev_paint changeovers =
     changeover_loop rest (Some (s_paint row))
       (case prev_paint of
          None \<Rightarrow> changeovers
        | Some p \<Rightarrow>
            if p = None \<or> s_paint row = None \<or> s_paint row \<noteq> p
            then changeovers @ [s_production_sequence row]
            else changeovers)"

text \<open>
  \<^verbatim>\<open>self.solution_df\<close> is \<open>None\<close> before the assignment; a solution without rows is a
  frame without columns, where reading the paint column is a \<^verbatim>\<open>KeyError\<close>. The rate and
  the shares are doubles: a quotient of two counts, rounded, times 100, rounded.
\<close>

definition generate_summary_metrics :: "solution_row list option \<Rightarrow> error + metrics" where
  "generate_summary_metrics solution_df =
     (case solution_df of
        None \<Rightarrow> Inl ValueError
      | Some [] \<Rightarrow> Inl KeyError
      | Some rows \<Rightarrow>
          (let n_vehicles = length rows;
               paints = map the (filter (\<lambda>p. p \<noteq> None) (map s_paint rows));
               unique_paints = length (remdups paints);
               n_batches = length (remdups (map s_batch_id rows));
               changeovers = changeover_loop rows None []
           in Inr \<lparr>total_vehicles = n_vehicles,
                   unique_paint_codes = unique_paints,
                   m_total_batches = n_batches,
                   total_changeovers = length changeovers,
                   changeover_rate =
                     float64 (float64 (of_nat (length changeovers) / of_nat n_batches) * 100),
                   paint_distribution_per_100 =
                     (\<lambda>c. if c \<in> set paints
                          then Some (float64
                            (float64 (of_nat (count_list paints c) / of_nat n_vehicles) * 100))
                          else None),
                   changeover_positions = changeovers\<rparr>))"

text \<open>The number of places of a list at which the entry differs from the one before.\<close>

fun transitions :: "'a list \<Rightarrow> nat" where
  "transitions (a # b # xs) = (if a \<noteq> b then 1 else 0) + transitions (b # xs)"
| "transitions xs = 0"

subsection \<open>A small run\<close>

text \<open>
  Four vehicles and batches of two: paint A needs two batches, paint B one, as in the
  design's scenario of 25 and 15 vehicles with batches of 20.
\<close>

definition example_vehicles :: "vehicle list" where
  "example_vehicles =
     [\<lparr>vin = ''V1'', paint = Some ''A'', production_sequence = 1, planned_ga_in_datetime = Some 0\<rparr>,
      \<lparr>vin = ''V2'', paint = Some ''A'', production_sequence = 2, planned_ga_in_datetime = Some 1\<rparr>,
      \<lparr>vin = ''V3'', paint = Some ''B'', production_sequence = 3, planned_ga_in_datetime = Some 2\<rparr>,
      \<lparr>vin = ''V4'', paint = Some ''A'', production_sequence = 4, planned_ga_in_datetime = Some 3\<rparr>]"

definition example_summary :: "paint_row list" where
  "example_summary =
     [\<lparr>paint_code = ''A'', vehicle_count = 3, full_batches = 1, remainder = 1, total_batches = 2\<rparr>,
      \<lparr>paint_code = ''B'', vehicle_count = 1, full_batches = 0, remainder = 1, total_batches = 1\<rparr>]"

text \<open>A vehicle whose paint cell is empty, and one whose paint is the empty string.\<close>

definition vehicle_without_paint :: vehicle where
  "vehicle_without_paint =
     \<lparr>vin = ''V9'', paint = None, production_sequence = 9, planned_ga_in_datetime = None\<rparr>"

definition vehicle_with_empty_paint :: vehicle where
  "vehicle_with_empty_paint =
     \<lparr>vin = ''V8'', paint = Some [], production_sequence = 8, planned_ga_in_datetime = None\<rparr>"

text \<open>
  Values for the variables of the small run: the batches are painted A, B, A, every
  slot counts as a changeover and every deviation variable is 2.
\<close>

definition example_values :: "var \<Rightarrow> real" where
  "example_values x =
     (case x of
        X c b \<Rightarrow> (if (c = ''A'' \<and> (b = 0 \<or> b = 2)) \<or> (c = ''B'' \<and> b = 1) then 1 else 0)
      | Y b \<Rightarrow> (if b < 3 then 1 else 0)
      | Dev c i b \<Rightarrow> 2)"

text \<open>The batch sequence of the small run, and the same with a fourth batch of paint B.\<close>

definition example_batches :: "batch_row list" where
  "example_batches =
     [\<lparr>batch_position = 0, b_paint_code = ''A''\<rparr>,
      \<lparr>batch_position = 1, b_paint_code = ''B''\<rparr>,
      \<lparr>batch_position = 2, b_paint_code = ''A''\<rparr>]"

definition surplus_batches :: "batch_row list" where
  "surplus_batches = example_batches @ [\<lparr>batch_position = 3, b_paint_code = ''B''\<rparr>]"

text \<open>The unit sequence of the small run.\<close>

definition example_solution :: "solution_row list" where
  "example_solution =
     [\<lparr>s_vin = ''V1'', s_paint = Some ''A'', s_batch_id = 1, s_production_sequence = 1,
       s_original_sequence = 1, s_planned_ga_in_datetime = None\<rparr>,
      \<lparr>s_vin = ''V2'', s_paint = Some ''A'', s_batch_id = 1, s_production_sequence = 2,
       s_original_sequence = 2, s_planned_ga_in_datetime = None\<rparr>,
      \<lparr>s_vin = ''V3'', s_paint = Some ''B'', s_batch_id = 2, s_production_sequence = 3,
       s_original_sequence = 3, s_planned_ga_in_datetime = None\<rparr>,
      \<lparr>s_vin = ''V4'', s_paint = Some ''A'', s_batch_id = 3, s_production_sequence = 4,
       s_original_sequence = 4, s_planned_ga_in_datetime = None\<rparr>]"

text \<open>Two vehicles of one paint, listed against their production sequence.\<close>

definition unsorted_vehicles :: "vehicle list" where
  "unsorted_vehicles =
     [\<lparr>vin = ''V1'', paint = Some ''A'', production_sequence = 2, planned_ga_in_datetime = Some 1\<rparr>,
      \<lparr>vin = ''V2'', paint = Some ''A'', production_sequence = 1, planned_ga_in_datetime = Some 0\<rparr>]"

text \<open>
  Summaries whose paint codes differ in a slash or in a hyphen against an underscore.
\<close>

definition slash_summary :: "paint_row list" where
  "slash_summary =
     [\<lparr>paint_code = ''A/B'', vehicle_count = 1, full_batches = 0, remainder = 1, total_batches = 1\<rparr>,
      \<lparr>paint_code = ''A_B'', vehicle_count = 1, full_batches = 0, remainder = 1, total_batches = 1\<rparr>]"

definition hyphen_summary :: "paint_row list" where
  "hyphen_summary =
     [\<lparr>paint_code = ''A-B'', vehicle_count = 1, full_batches = 0, remainder = 1, total_batches = 1\<rparr>,
      \<lparr>paint_code = ''A_B'', vehicle_count = 1, full_batches = 0, remainder = 1, total_batches = 1\<rparr>]"


section \<open>Properties\<close>

subsection \<open>Ideal positions\<close>

lemma calculate_ideal_positions_single:
  "calculate_ideal_positions c 1 n_total = [n_total div 2]"
  by (simp add: calculate_ideal_positions_def)

lemma calculate_ideal_positions_length:
  "num_batches \<noteq> 1 \<Longrightarrow>
   length (calculate_ideal_positions c num_batches n_total) = nat num_batches"
  by (simp add: calculate_ideal_positions_def Let_def)

lemma calculate_ideal_positions_nth:
  "num_batches \<noteq> 1 \<Longrightarrow> i < nat num_batches \<Longrightarrow>
   calculate_ideal_positions c num_batches n_total ! i =
     trunc (float64 (float64 (of_int (int i)) *
       float64 (float64 (of_int n_total) / float64 (of_int num_batches))))"
  by (simp add: calculate_ideal_positions_def Let_def)

lemma calculate_ideal_positions_scenario:
  "calculate_ideal_positions ''A'' 2 3 = [0, 1] \<and> calculate_ideal_positions ''B'' 1 3 = [1]"
  by code_simp

text \<open>
  C2. The claim: the ideal positions of \<open>n \<noteq> 1\<close> batches in a schedule of \<open>T\<close> slots are
  exactly \<open>floor (i * T / n)\<close>. The source multiplies \<open>i\<close> by the double \<open>T / n\<close>: for 22
  batches in 30 slots the double \<open>30 / 22\<close> lies below \<open>15 / 11\<close>, its product with 11
  is rounded to the double just below 15, and the position of batch 11 is 14, where
  \<open>floor (11 * 30 / 22) = 15\<close>.
\<close>

theorem ideal_position_float_rounding:
  "calculate_ideal_positions ''A'' 22 30 ! 11 = 14 \<and> (11 * 30) div 22 = (15 :: int)"
proof -
  have "calculate_ideal_positions ''A'' 22 30 ! 11 =
        trunc (float64 (float64 (of_int (int 11)) *
          float64 (float64 (of_int 30) / float64 (of_int 22))))"
    by (rule calculate_ideal_positions_nth) simp_all
  also have "\<dots> = 14"
    by code_simp
  finally show ?thesis
    by simp
qed

subsection \<open>The distribution summary\<close>

lemma sum_list_map_insort_key:
  "sum_list (map f (insort_key k x xs)) = (f x :: int) + sum_list (map f xs)"
  by (induction xs) auto

lemma sum_list_map_sort_key:
  "sum_list (map f (sort_key k xs)) = (sum_list (map f xs) :: int)"
  by (induction xs) (auto simp: sum_list_map_insort_key)

lemma sum_counts_first_seen:
  "(\<Sum>c\<leftarrow>rev (remdups (rev xs)). int (count_list xs c)) = int (length xs)"
proof -
  have "(\<Sum>c\<leftarrow>rev (remdups (rev xs)). int (count_list xs c))
        = (\<Sum>c\<in>set xs. int (count_list xs c))"
    by (subst sum_list_distinct_conv_sum_set) auto
  also have "\<dots> = int (\<Sum>c\<in>set xs. count_list xs c)"
    by simp
  also have "\<dots> = int (length xs)"
    by (simp add: sum_count_set)
  finally show ?thesis .
qed

lemma value_counts_sum:
  "sum_list (map snd (value_counts col)) = int (length (filter (\<lambda>p. p \<noteq> None) col))"
proof -
  have "sum_list (map snd (value_counts col))
        = (\<Sum>c\<leftarrow>rev (remdups (rev (map the (filter (\<lambda>p. p \<noteq> None) col)))).
             int (count_list (map the (filter (\<lambda>p. p \<noteq> None) col)) c))"
    by (simp add: value_counts_def Let_def sum_list_map_sort_key o_def)
  then show ?thesis
    by (simp add: sum_counts_first_seen)
qed

lemma value_counts_keys:
  "set (map fst (value_counts col)) = {c. Some c \<in> set col}"
proof -
  have "set (map fst (value_counts col)) = set (map the (filter (\<lambda>p. p \<noteq> None) col))"
    by (simp add: value_counts_def Let_def image_image)
  also have "\<dots> = {c. Some c \<in> set col}"
    by force
  finally show ?thesis .
qed

lemma value_counts_distinct:
  "distinct (map fst (value_counts col))"
proof -
  have "distinct (map fst (map (\<lambda>c. (c, int (count_list xs c))) (rev (remdups (rev xs)))))"
    for xs :: "string list"
    by (simp add: o_def)
  then show ?thesis
    unfolding value_counts_def Let_def
    by (simp add: distinct_map inj_on_def set_sort distinct_sort del: map_map)
qed

lemma analyze_ok:
  assumes "fits_int64 batch_size" and "batch_size \<noteq> 0"
  shows "analyze_paint_distribution batch_size vehicles_df =
     Inr (sort_key (\<lambda>r. - vehicle_count r)
           (map (\<lambda>(c, n).
              \<lparr>paint_code = c, vehicle_count = n,
               full_batches = n div batch_size,
               remainder = n mod batch_size,
               total_batches = ceil_div n batch_size\<rparr>) (value_counts (map paint vehicles_df))))"
  using assms by (simp add: analyze_paint_distribution_def Let_def)

lemma analyze_result:
  assumes "analyze_paint_distribution batch_size vehicles_df = Inr summary"
  shows "summary = sort_key (\<lambda>r. - vehicle_count r)
           (map (\<lambda>(c, n).
              \<lparr>paint_code = c, vehicle_count = n,
               full_batches = n div batch_size,
               remainder = n mod batch_size,
               total_batches = ceil_div n batch_size\<rparr>) (value_counts (map paint vehicles_df)))"
  using assms by (auto simp: analyze_paint_distribution_def Let_def split: if_splits)

lemma analyze_counts:
  assumes "analyze_paint_distribution batch_size vehicles_df = Inr summary"
  shows "sum_list (map vehicle_count summary)
         = int (length (filter (\<lambda>v. paint v \<noteq> None) vehicles_df))"
proof -
  have "sum_list (map vehicle_count summary)
        = sum_list (map snd (value_counts (map paint vehicles_df)))"
    unfolding analyze_result [OF assms]
    by (simp add: sum_list_map_sort_key o_def case_prod_unfold)
  also have "\<dots> = int (length (filter (\<lambda>p. p \<noteq> None) (map paint vehicles_df)))"
    by (rule value_counts_sum)
  also have "\<dots> = int (length (filter (\<lambda>v. paint v \<noteq> None) vehicles_df))"
    by (simp add: filter_map o_def)
  finally show ?thesis .
qed

lemma analyze_required:
  assumes "analyze_paint_distribution batch_size vehicles_df = Inr summary"
    and "r \<in> set summary"
  shows "total_batches r = ceil_div (vehicle_count r) batch_size"
  using assms(2) unfolding analyze_result [OF assms(1)] by auto

lemma analyze_codes:
  assumes "analyze_paint_distribution batch_size vehicles_df = Inr summary"
  shows "set (map paint_code summary) = {c. Some c \<in> set (map paint vehicles_df)}"
proof -
  have "set (map paint_code summary) = set (map fst (value_counts (map paint vehicles_df)))"
    unfolding analyze_result [OF assms]
    by (simp add: image_image case_prod_unfold)
  then show ?thesis
    by (simp only: value_counts_keys)
qed

lemma analyze_example:
  "analyze_paint_distribution 2 example_vehicles = Inr example_summary"
  by code_simp

text \<open>
  C5, as the claim states it, fails: the analysis of an empty table returns the empty
  summary, a vehicle without a paint code is left out of the counts, and the empty
  string is counted as a paint code.
\<close>

theorem analyze_validation_counterexample:
  "analyze_paint_distribution 20 [] = Inr [] \<and>
   analyze_paint_distribution 20 [vehicle_without_paint] = Inr [] \<and>
   analyze_paint_distribution 20 [vehicle_with_empty_paint] =
     Inr [\<lparr>paint_code = [], vehicle_count = 1, full_batches = 0, remainder = 1,
           total_batches = 1\<rparr>]"
  by code_simp

text \<open>
  C5, amended. The analysis validates nothing. For a batch size that is a 64-bit
  integer, an empty table gives the empty summary, and if the batch size is not 0 every
  table gives a summary, whose paint codes are the paint codes present in the table.
  A batch size that is no 64-bit integer is an \<^verbatim>\<open>OverflowError\<close>, for every table.
\<close>

theorem analyze_without_validation:
  "(fits_int64 batch_size \<longrightarrow>
      analyze_paint_distribution batch_size [] = Inr [] \<and>
      (batch_size \<noteq> 0 \<longrightarrow>
        (\<exists>summary. analyze_paint_distribution batch_size vehicles_df = Inr summary \<and>
           set (map paint_code summary) = {c. Some c \<in> set (map paint vehicles_df)}))) \<and>
   (\<not> fits_int64 batch_size \<longrightarrow>
      analyze_paint_distribution batch_size vehicles_df = Inl OverflowError)"
proof (intro conjI impI)
  assume "fits_int64 batch_size"
  then show "analyze_paint_distribution batch_size [] = Inr []"
    by (simp add: analyze_paint_distribution_def value_counts_def)
next
  assume "fits_int64 batch_size" and "batch_size \<noteq> 0"
  then obtain summary where s: "analyze_paint_distribution batch_size vehicles_df = Inr summary"
    using analyze_ok by blast
  with analyze_codes [OF s]
  show "\<exists>summary. analyze_paint_distribution batch_size vehicles_df = Inr summary \<and>
        set (map paint_code summary) = {c. Some c \<in> set (map paint vehicles_df)}"
    by blast
next
  assume "\<not> fits_int64 batch_size"
  then show "analyze_paint_distribution batch_size vehicles_df = Inl OverflowError"
    by (simp add: analyze_paint_distribution_def Let_def)
qed

theorem analyze_without_validation_witness:
  "fits_int64 20 \<and> (20 :: int) \<noteq> 0 \<and>
   analyze_paint_distribution 20 [] = Inr [] \<and>
   (\<exists>summary. analyze_paint_distribution 20 [vehicle_without_paint, vehicle_with_empty_paint]
        = Inr summary \<and>
      set (map paint_code summary) =
        {c. Some c \<in> set (map paint [vehicle_without_paint, vehicle_with_empty_paint])}) \<and>
   \<not> fits_int64 9223372036854775808 \<and>
   analyze_paint_distribution 9223372036854775808 [] = Inl OverflowError"
proof -
  have f: "fits_int64 20" and n: "(20 :: int) \<noteq> 0"
    by (simp_all add: fits_int64_def)
  have o: "\<not> fits_int64 9223372036854775808"
    by (simp add: fits_int64_def)
  from analyze_without_validation [of 20 "[vehicle_without_paint, vehicle_with_empty_paint]"] f n
  have "analyze_paint_distribution 20 [] = Inr [] \<and>
    (\<exists>summary. analyze_paint_distribution 20 [vehicle_without_paint, vehicle_with_empty_paint]
        = Inr summary \<and>
      set (map paint_code summary) =
        {c. Some c \<in> set (map paint [vehicle_without_paint, vehicle_with_empty_paint])})"
    by blast
  moreover from analyze_without_validation [of 9223372036854775808 "[]"] o
  have "analyze_paint_distribution 9223372036854775808 [] = Inl OverflowError"
    by blast
  ultimately show ?thesis
    using f n o by blast
qed

text \<open>
  C9, as the claim states it, fails for a table with a vehicle without a paint code:
  the vehicle is in no count.
\<close>

theorem unit_counts_counterexample:
  "analyze_paint_distribution 20 [vehicle_without_paint] = Inr [] \<and>
   sum_list (map vehicle_count ([] :: paint_row list)) \<noteq> int (length [vehicle_without_paint])"
  by code_simp

text \<open>
  C9, amended. For every summary the analysis returns, the schedule length the model
  uses is the sum of the required batch counts \<open>ceil (count / batch_size)\<close>, and the
  vehicle counts add up to the number of vehicles that have a paint code: to the
  number of all vehicles when none lacks one.
\<close>

theorem distribution_summary_sums:
  assumes "analyze_paint_distribution batch_size vehicles_df = Inr summary"
  shows "schedule_length summary = (\<Sum>r\<leftarrow>summary. ceil_div (vehicle_count r) batch_size) \<and>
         sum_list (map vehicle_count summary) =
           int (length (filter (\<lambda>v. paint v \<noteq> None) vehicles_df)) \<and>
         ((\<forall>v \<in> set vehicles_df. paint v \<noteq> None) \<longrightarrow>
           sum_list (map vehicle_count summary) = int (length vehicles_df))"
proof (intro conjI impI)
  have "map total_batches summary = map (\<lambda>r. ceil_div (vehicle_count r) batch_size) summary"
    by (rule map_cong) (simp_all add: analyze_required [OF assms])
  then show "schedule_length summary = (\<Sum>r\<leftarrow>summary. ceil_div (vehicle_count r) batch_size)"
    by (simp only: schedule_length_def)
next
  show "sum_list (map vehicle_count summary) =
        int (length (filter (\<lambda>v. paint v \<noteq> None) vehicles_df))"
    by (rule analyze_counts [OF assms])
next
  assume "\<forall>v \<in> set vehicles_df. paint v \<noteq> None"
  then have "filter (\<lambda>v. paint v \<noteq> None) vehicles_df = vehicles_df"
    by simp
  with analyze_counts [OF assms]
  show "sum_list (map vehicle_count summary) = int (length vehicles_df)"
    by simp
qed

theorem distribution_summary_sums_witness:
  "analyze_paint_distribution 2 example_vehicles = Inr example_summary \<and>
   schedule_length example_summary = 3 \<and>
   sum_list (map vehicle_count example_summary) = 4"
proof -
  have h: "analyze_paint_distribution 2 example_vehicles = Inr example_summary"
    by (rule analyze_example)
  have p: "\<forall>v \<in> set example_vehicles. paint v \<noteq> None"
    by (simp add: example_vehicles_def)
  have "schedule_length example_summary = 3"
    by (simp add: schedule_length_def example_summary_def)
  moreover have "sum_list (map vehicle_count example_summary) = int (length example_vehicles)"
    using distribution_summary_sums [OF h] p by blast
  ultimately show ?thesis
    using h by (simp add: example_vehicles_def)
qed

subsection \<open>The model\<close>

lemma constraint_names_append [simp]:
  "constraint_names (xs @ ys) = constraint_names xs @ constraint_names ys"
  by (simp add: constraint_names_def)

lemma names_sanitized [simp]:
  "map c_name (map sanitized cs) = constraint_names cs"
  by (simp add: constraint_names_def sanitized_def)

lemma distinct_names_prefix:
  "distinct (constraint_names (xs @ ys)) \<Longrightarrow> distinct (constraint_names xs)"
  by (simp add: constraint_names_def)

lemma add_constraint_eq:
  "add_constraint prob c =
     (if sanitize (c_name c) \<in> set (map c_name (lp_constraints prob)) then Inl PulpError
      else Inr (prob\<lparr>lp_constraints := lp_constraints prob @ [sanitized c]\<rparr>))"
  by (simp add: add_constraint_def sanitized_def Let_def)

lemma add_constraints_eq:
  "add_constraints prob cs =
     (if distinct (constraint_names cs) \<and>
         set (constraint_names cs) \<inter> set (map c_name (lp_constraints prob)) = {}
      then Inr (prob\<lparr>lp_constraints := lp_constraints prob @ map sanitized cs\<rparr>)
      else Inl PulpError)"
proof (induction cs arbitrary: prob)
  case Nil
  then show ?case by (simp add: constraint_names_def)
next
  case (Cons c cs)
  show ?case
  proof (cases "sanitize (c_name c) \<in> set (map c_name (lp_constraints prob))")
    case True
    then show ?thesis
      by (simp add: add_constraint_eq constraint_names_def)
  next
    case False
    have n: "c_name (sanitized c) = sanitize (c_name c)"
      by (simp add: sanitized_def)
    from False show ?thesis
      by (simp add: add_constraint_eq Cons.IH n constraint_names_def)
  qed
qed

lemma add_constraints_built:
  assumes "distinct (constraint_names cs0)"
  shows "add_constraints \<lparr>lp_constraints = map sanitized cs0, lp_objective = ob\<rparr> cs =
     (if distinct (constraint_names (cs0 @ cs))
      then Inr \<lparr>lp_constraints = map sanitized (cs0 @ cs), lp_objective = ob\<rparr>
      else Inl PulpError)"
  using assms by (auto simp: add_constraints_eq constraint_names_def sanitized_def)

lemma add_constraint_built:
  assumes "distinct (constraint_names cs0)"
  shows "add_constraint \<lparr>lp_constraints = map sanitized cs0, lp_objective = ob\<rparr> c =
     (if distinct (constraint_names (cs0 @ [c]))
      then Inr \<lparr>lp_constraints = map sanitized (cs0 @ [c]), lp_objective = ob\<rparr>
      else Inl PulpError)"
  using assms by (auto simp: add_constraint_eq constraint_names_def sanitized_def)

lemma add_constraints_empty:
  "add_constraints \<lparr>lp_constraints = [], lp_objective = ob\<rparr> cs =
     (if distinct (constraint_names cs)
      then Inr \<lparr>lp_constraints = map sanitized cs, lp_objective = ob\<rparr>
      else Inl PulpError)"
  using add_constraints_built [of "[]" ob cs] by (simp add: constraint_names_def)

lemma build_model_eq:
  "build_model paint_summary =
     (if \<not> distinct (constraint_names (constraints_before_setup paint_summary))
      then Inl PulpError
      else if schedule_length paint_summary \<le> 0 then Inl KeyError
      else if \<not> distinct (constraint_names (model_constraints paint_summary))
      then Inl PulpError
      else Inr \<lparr>lp_constraints = map sanitized (model_constraints paint_summary),
                lp_objective = objective (map paint_code paint_summary)
                  (paint_batches_of paint_summary) (schedule_length paint_summary)\<rparr>)"
proof -
  define codes where "codes = map paint_code paint_summary"
  define pb where "pb = paint_batches_of paint_summary"
  define n where "n = schedule_length paint_summary"
  define F1 where "F1 = one_paint_per_batch codes n"
  define F2 where "F2 = batch_count codes pb n"
  define F3 where "F3 = changeover_detect codes n"
  define F4 where "F4 = deviation codes pb (\<lambda>c. calculate_ideal_positions c (pb c) n) n"
  have before: "constraints_before_setup paint_summary = F1 @ F2 @ F3"
    by (simp add: constraints_before_setup_def Let_def F1_def F2_def F3_def codes_def pb_def n_def)
  have all: "model_constraints paint_summary = (F1 @ F2 @ F3) @ [first_batch_setup] @ F4"
    by (simp add: model_constraints_def Let_def before F4_def codes_def pb_def n_def)
  have bm: "build_model paint_summary =
     (case add_constraints \<lparr>lp_constraints = [], lp_objective = ([], 0)\<rparr> F1 of
        Inl e \<Rightarrow> Inl e
      | Inr prob1 \<Rightarrow>
     (case add_constraints prob1 F2 of
        Inl e \<Rightarrow> Inl e
      | Inr prob2 \<Rightarrow>
     (case add_constraints prob2 F3 of
        Inl e \<Rightarrow> Inl e
      | Inr prob3 \<Rightarrow>
     if n \<le> 0 then Inl KeyError
     else (case add_constraint prob3 first_batch_setup of
        Inl e \<Rightarrow> Inl e
      | Inr prob4 \<Rightarrow>
     (case add_constraints prob4 F4 of
        Inl e \<Rightarrow> Inl e
      | Inr prob5 \<Rightarrow> Inr (prob5\<lparr>lp_objective := objective codes pb n\<rparr>))))))"
    unfolding build_model_def Let_def F1_def F2_def F3_def F4_def codes_def pb_def n_def
    by (rule refl)
  show ?thesis
  proof (cases "distinct (constraint_names (F1 @ F2 @ F3))")
    case False
    have "build_model paint_summary = Inl PulpError"
    proof (cases "distinct (constraint_names F1)")
      case f1: False
      then show ?thesis
        unfolding bm by (simp add: add_constraints_empty)
    next
      case f1: True
      show ?thesis
      proof (cases "distinct (constraint_names (F1 @ F2))")
        case f2: False
        have s1: "add_constraints \<lparr>lp_constraints = [], lp_objective = ([], 0)\<rparr> F1
              = Inr \<lparr>lp_constraints = map sanitized F1, lp_objective = ([], 0)\<rparr>"
          using f1 by (simp add: add_constraints_empty)
        have s2: "add_constraints \<lparr>lp_constraints = map sanitized F1, lp_objective = ([], 0)\<rparr> F2
              = Inl PulpError"
          using f2 add_constraints_built [OF f1, of "([], 0)" F2] by simp
        show ?thesis
          unfolding bm s1 by (simp only: s2 sum.case)
      next
        case f2: True
        have s1: "add_constraints \<lparr>lp_constraints = [], lp_objective = ([], 0)\<rparr> F1
              = Inr \<lparr>lp_constraints = map sanitized F1, lp_objective = ([], 0)\<rparr>"
          using f1 by (simp add: add_constraints_empty)
        have s2: "add_constraints \<lparr>lp_constraints = map sanitized F1, lp_objective = ([], 0)\<rparr> F2
              = Inr \<lparr>lp_constraints = map sanitized (F1 @ F2), lp_objective = ([], 0)\<rparr>"
          using f2 add_constraints_built [OF f1, of "([], 0)" F2] by simp
        have s3: "add_constraints \<lparr>lp_constraints = map sanitized (F1 @ F2), lp_objective = ([], 0)\<rparr> F3
              = Inl PulpError"
          using False add_constraints_built [OF f2, of "([], 0)" F3] by simp
        show ?thesis
          unfolding bm s1 by (simp only: s2 s3 sum.case)
      qed
    qed
    with False show ?thesis
      by (simp add: before)
  next
    case True
    then have f1: "distinct (constraint_names F1)" and f2: "distinct (constraint_names (F1 @ F2))"
      by auto
    have s1: "add_constraints \<lparr>lp_constraints = [], lp_objective = ([], 0)\<rparr> F1
          = Inr \<lparr>lp_constraints = map sanitized F1, lp_objective = ([], 0)\<rparr>"
      using f1 by (simp add: add_constraints_empty)
    have s2: "add_constraints \<lparr>lp_constraints = map sanitized F1, lp_objective = ([], 0)\<rparr> F2
          = Inr \<lparr>lp_constraints = map sanitized (F1 @ F2), lp_objective = ([], 0)\<rparr>"
      using f2 add_constraints_built [OF f1, of "([], 0)" F2] by simp
    have s3: "add_constraints \<lparr>lp_constraints = map sanitized (F1 @ F2), lp_objective = ([], 0)\<rparr> F3
          = Inr \<lparr>lp_constraints = map sanitized ((F1 @ F2) @ F3), lp_objective = ([], 0)\<rparr>"
      using True add_constraints_built [OF f2, of "([], 0)" F3] by simp
    have t3: "distinct (constraint_names ((F1 @ F2) @ F3))"
      using True by simp
    show ?thesis
    proof (cases "n \<le> 0")
      case n0: True
      have "build_model paint_summary = Inl KeyError"
        unfolding bm s1 using n0 by (simp only: s2 s3 sum.case if_True)
      with True n0 show ?thesis
        by (simp add: before n_def)
    next
      case n0: False
      show ?thesis
      proof (cases "distinct (constraint_names (((F1 @ F2) @ F3) @ [first_batch_setup]))")
        case f4: False
        have s4: "add_constraint \<lparr>lp_constraints = map sanitized ((F1 @ F2) @ F3), lp_objective = ([], 0)\<rparr>
              first_batch_setup = Inl PulpError"
          using f4 add_constraint_built [OF t3, of "([], 0)" first_batch_setup] by simp
        have "build_model paint_summary = Inl PulpError"
          unfolding bm s1 using n0 by (simp only: s2 s3 s4 sum.case if_False)
        moreover have "model_constraints paint_summary =
            (((F1 @ F2) @ F3) @ [first_batch_setup]) @ F4"
          unfolding all by simp
        then have "\<not> distinct (constraint_names (model_constraints paint_summary))"
          using f4 distinct_names_prefix by metis
        ultimately show ?thesis
          using True n0 by (simp add: before n_def)
      next
        case f4: True
        have s4: "add_constraint \<lparr>lp_constraints = map sanitized ((F1 @ F2) @ F3), lp_objective = ([], 0)\<rparr>
              first_batch_setup
              = Inr \<lparr>lp_constraints = map sanitized (((F1 @ F2) @ F3) @ [first_batch_setup]),
                     lp_objective = ([], 0)\<rparr>"
          using f4 add_constraint_built [OF t3, of "([], 0)" first_batch_setup] by simp
        have s5: "add_constraints
              \<lparr>lp_constraints = map sanitized (((F1 @ F2) @ F3) @ [first_batch_setup]),
               lp_objective = ([], 0)\<rparr> F4
              = (if distinct (constraint_names ((((F1 @ F2) @ F3) @ [first_batch_setup]) @ F4))
                 then Inr \<lparr>lp_constraints =
                        map sanitized ((((F1 @ F2) @ F3) @ [first_batch_setup]) @ F4),
                        lp_objective = ([], 0)\<rparr>
                 else Inl PulpError)"
          by (rule add_constraints_built [OF f4])
        have e: "(((F1 @ F2) @ F3) @ [first_batch_setup]) @ F4 = model_constraints paint_summary"
          unfolding all by simp
        have "build_model paint_summary =
           (if distinct (constraint_names (model_constraints paint_summary))
            then Inr \<lparr>lp_constraints = map sanitized (model_constraints paint_summary),
                      lp_objective = objective codes pb n\<rparr>
            else Inl PulpError)"
          unfolding bm s1 using n0
          by (simp only: s2 s3 s4 s5 e sum.case if_False)
             (simp split: if_splits)
        with True n0 show ?thesis
          by (simp add: before n_def codes_def pb_def)
      qed
    qed
  qed
qed

lemma satisfies_sanitized [simp]: "satisfies v (sanitized c) = satisfies v c"
  by (simp add: satisfies_def sanitized_def split: sense.splits)

lemma feasible_sanitized:
  "feasible v \<lparr>lp_constraints = map sanitized cs, lp_objective = ob\<rparr>
     = (\<forall>c \<in> set cs. satisfies v c)"
  by (simp add: feasible_def list_all_iff)

lemma eval_expr_const [simp]: "eval_expr v ([], k) = of_int k"
  by (simp add: eval_expr_def)

lemma eval_expr_single [simp]: "eval_expr v ([(a, x)], 0) = of_int a * v x"
  by (simp add: eval_expr_def)

lemma eval_expr_pair [simp]:
  "eval_expr v ([(a, x), (b, y)], 0) = of_int a * v x + of_int b * v y"
  by (simp add: eval_expr_def)

lemma eval_expr_unit_terms [simp]:
  "eval_expr v (map (\<lambda>k. (1, f k)) ks, 0) = (\<Sum>k\<leftarrow>ks. v (f k))"
  by (simp add: eval_expr_def o_def)

lemma sat_one_paint_per_batch:
  "(\<forall>c \<in> set (one_paint_per_batch paint_codes n). satisfies v c) \<longleftrightarrow>
   (\<forall>b < nat n. (\<Sum>c\<leftarrow>paint_codes. v (X c b)) = 1)"
  by (auto simp: one_paint_per_batch_def satisfies_def)

lemma sat_batch_count:
  "(\<forall>c \<in> set (batch_count paint_codes pb n). satisfies v c) \<longleftrightarrow>
   (\<forall>c \<in> set paint_codes. (\<Sum>b\<leftarrow>[0..<nat n]. v (X c b)) = of_int (pb c))"
  by (auto simp: batch_count_def satisfies_def)

lemma sat_changeover_detect:
  "(\<forall>c \<in> set (changeover_detect paint_codes n). satisfies v c) \<longleftrightarrow>
   (\<forall>b. 1 \<le> b \<and> b < nat n \<longrightarrow>
      (\<forall>c \<in> set paint_codes. v (X c b) - v (X c (b - 1)) \<le> v (Y b)))"
  by (auto simp: changeover_detect_def satisfies_def)

lemma sat_first_batch_setup:
  "satisfies v first_batch_setup \<longleftrightarrow> v (Y 0) = 1"
  by (simp add: first_batch_setup_def satisfies_def)

lemma sat_deviation:
  "(\<forall>c \<in> set (deviation paint_codes pb ideal n). satisfies v c) \<longleftrightarrow>
   (\<forall>c \<in> set paint_codes. \<forall>i < nat (pb c). \<forall>b < nat n.
      of_int (int b - ideal c ! i) * v (X c b) \<le> v (Dev c i b) \<and>
      of_int (ideal c ! i - int b) * v (X c b) \<le> v (Dev c i b))"
  by (auto simp: deviation_def satisfies_def dev_pos_def dev_neg_def)

lemma sum_list_concat_map:
  "sum_list (concat (map f xs)) = (\<Sum>x\<leftarrow>xs. sum_list (f x :: real list))"
  by (induction xs) auto

lemma eval_objective:
  "eval_expr v (objective paint_codes pb n) =
     1000 * (\<Sum>b\<leftarrow>[0..<nat n]. v (Y b)) +
     1 * (\<Sum>c\<leftarrow>paint_codes. \<Sum>i\<leftarrow>[0..<nat (pb c)]. \<Sum>b\<leftarrow>[0..<nat n]. v (Dev c i b))"
  by (simp add: objective_def eval_expr_def Let_def o_def map_concat sum_list_concat_map
        sum_list_const_mult)

lemma build_model_Inr:
  assumes "build_model paint_summary = Inr prob"
  shows "0 < schedule_length paint_summary"
    and "distinct (constraint_names (model_constraints paint_summary))"
    and "prob = \<lparr>lp_constraints = map sanitized (model_constraints paint_summary),
                lp_objective = objective (map paint_code paint_summary)
                  (paint_batches_of paint_summary) (schedule_length paint_summary)\<rparr>"
  using assms unfolding build_model_eq by (simp_all split: if_splits)

lemma distinct_codes_of_names:
  assumes "distinct (constraint_names (model_constraints paint_summary))"
  shows "distinct (map paint_code paint_summary)"
proof -
  have "distinct (constraint_names
          (batch_count (map paint_code paint_summary) (paint_batches_of paint_summary)
             (schedule_length paint_summary)))"
    using assms
    by (simp add: model_constraints_def constraints_before_setup_def Let_def)
  then have "distinct (map (\<lambda>c. sanitize (''batch_count_'' @ c)) (map paint_code paint_summary))"
    by (simp add: constraint_names_def batch_count_def o_def)
  then show ?thesis
    unfolding distinct_map [of _ "map paint_code paint_summary"] by blast
qed

lemma paint_batches_of_row:
  assumes "distinct (map paint_code paint_summary)" and "r \<in> set paint_summary"
  shows "paint_batches_of paint_summary (paint_code r) = total_batches r"
proof -
  have d: "distinct (map fst (rev (map (\<lambda>r. (paint_code r, total_batches r)) paint_summary)))"
    using assms(1) by (simp add: rev_map [symmetric] o_def)
  have "(paint_code r, total_batches r)
          \<in> set (rev (map (\<lambda>r. (paint_code r, total_batches r)) paint_summary))"
    using assms(2) by auto
  with d have "map_of (rev (map (\<lambda>r. (paint_code r, total_batches r)) paint_summary))
                 (paint_code r) = Some (total_batches r)"
    by simp
  then show ?thesis
    by (simp add: paint_batches_of_def)
qed

lemma length_model_constraints:
  "length (model_constraints paint_summary) =
     nat (schedule_length paint_summary) + length paint_summary +
     (nat (schedule_length paint_summary) - 1) * length paint_summary + 1 +
     (\<Sum>r\<leftarrow>paint_summary.
        nat (paint_batches_of paint_summary (paint_code r)) *
          (2 * nat (schedule_length paint_summary)))"
  by (simp add: model_constraints_def constraints_before_setup_def Let_def
        one_paint_per_batch_def batch_count_def changeover_detect_def deviation_def
        length_concat o_def sum_list_triv mult_2)

lemma feasible_model_constraints:
  "(\<forall>c \<in> set (model_constraints paint_summary). satisfies v c) \<longleftrightarrow>
     (\<forall>b < nat (schedule_length paint_summary).
        (\<Sum>r\<leftarrow>paint_summary. v (X (paint_code r) b)) = 1) \<and>
     (\<forall>r \<in> set paint_summary.
        (\<Sum>b\<leftarrow>[0..<nat (schedule_length paint_summary)]. v (X (paint_code r) b)) =
          of_int (paint_batches_of paint_summary (paint_code r))) \<and>
     (\<forall>b. 1 \<le> b \<and> b < nat (schedule_length paint_summary) \<longrightarrow>
        (\<forall>r \<in> set paint_summary.
           v (X (paint_code r) b) - v (X (paint_code r) (b - 1)) \<le> v (Y b))) \<and>
     v (Y 0) = 1 \<and>
     (\<forall>r \<in> set paint_summary.
        \<forall>i < nat (paint_batches_of paint_summary (paint_code r)).
        \<forall>b < nat (schedule_length paint_summary).
          of_int (int b - calculate_ideal_positions (paint_code r)
                    (paint_batches_of paint_summary (paint_code r))
                    (schedule_length paint_summary) ! i) * v (X (paint_code r) b)
            \<le> v (Dev (paint_code r) i b) \<and>
          of_int (calculate_ideal_positions (paint_code r)
                    (paint_batches_of paint_summary (paint_code r))
                    (schedule_length paint_summary) ! i - int b) * v (X (paint_code r) b)
            \<le> v (Dev (paint_code r) i b))"
proof -
  have "(\<forall>c \<in> set (model_constraints paint_summary). satisfies v c) \<longleftrightarrow>
      (\<forall>c \<in> set (one_paint_per_batch (map paint_code paint_summary)
                     (schedule_length paint_summary)). satisfies v c) \<and>
      (\<forall>c \<in> set (batch_count (map paint_code paint_summary)
                     (paint_batches_of paint_summary)
                     (schedule_length paint_summary)). satisfies v c) \<and>
      (\<forall>c \<in> set (changeover_detect (map paint_code paint_summary)
                     (schedule_length paint_summary)). satisfies v c) \<and>
      satisfies v first_batch_setup \<and>
      (\<forall>c \<in> set (deviation (map paint_code paint_summary)
                     (paint_batches_of paint_summary)
                     (\<lambda>c. calculate_ideal_positions c (paint_batches_of paint_summary c)
                            (schedule_length paint_summary))
                     (schedule_length paint_summary)). satisfies v c)"
    by (simp add: model_constraints_def constraints_before_setup_def Let_def ball_Un conj_ac)
  then show ?thesis
    unfolding sat_one_paint_per_batch sat_batch_count sat_changeover_detect
      sat_first_batch_setup sat_deviation
    by (simp add: o_def)
qed

text \<open>
  C1. The problem that \<^verbatim>\<open>optimize_sequence_milp\<close> builds has exactly the constraint
  families of the design: values of the variables satisfy all its constraints if and
  only if every slot has paint codes summing to 1, every paint code has slots summing
  to its required batch count, \<open>y[s] \<ge> x[c,s] - x[c,s-1]\<close> for every slot from 1 on,
  \<open>y[0] = 1\<close>, and every deviation variable bounds both \<open>(s - ideal) * x[c,s]\<close> and
  \<open>(ideal - s) * x[c,s]\<close>; the objective is 1000 times the sum of \<open>y\<close> plus 1 times the
  sum of \<open>dev\<close>; and the number of constraints is that of these families.
\<close>

theorem model_constraint_families:
  assumes "build_model paint_summary = Inr prob"
  shows "(feasible v prob \<longleftrightarrow>
     (\<forall>s < nat (schedule_length paint_summary).
        (\<Sum>r\<leftarrow>paint_summary. v (X (paint_code r) s)) = 1) \<and>
     (\<forall>r \<in> set paint_summary.
        (\<Sum>s\<leftarrow>[0..<nat (schedule_length paint_summary)]. v (X (paint_code r) s)) =
          of_int (total_batches r)) \<and>
     (\<forall>s. 1 \<le> s \<and> s < nat (schedule_length paint_summary) \<longrightarrow>
        (\<forall>r \<in> set paint_summary.
           v (X (paint_code r) s) - v (X (paint_code r) (s - 1)) \<le> v (Y s))) \<and>
     v (Y 0) = 1 \<and>
     (\<forall>r \<in> set paint_summary.
        \<forall>i < nat (total_batches r).
        \<forall>s < nat (schedule_length paint_summary).
          of_int (int s - calculate_ideal_positions (paint_code r) (total_batches r)
                    (schedule_length paint_summary) ! i) * v (X (paint_code r) s)
            \<le> v (Dev (paint_code r) i s) \<and>
          of_int (calculate_ideal_positions (paint_code r) (total_batches r)
                    (schedule_length paint_summary) ! i - int s) * v (X (paint_code r) s)
            \<le> v (Dev (paint_code r) i s))) \<and>
   eval_expr v (lp_objective prob) =
     1000 * (\<Sum>s\<leftarrow>[0..<nat (schedule_length paint_summary)]. v (Y s)) +
     1 * (\<Sum>r\<leftarrow>paint_summary. \<Sum>i\<leftarrow>[0..<nat (total_batches r)].
            \<Sum>s\<leftarrow>[0..<nat (schedule_length paint_summary)]. v (Dev (paint_code r) i s)) \<and>
   length (lp_constraints prob) =
     nat (schedule_length paint_summary) + length paint_summary +
     (nat (schedule_length paint_summary) - 1) * length paint_summary + 1 +
     (\<Sum>r\<leftarrow>paint_summary. nat (total_batches r) * (2 * nat (schedule_length paint_summary)))"
proof -
  note b = build_model_Inr [OF assms]
  have pb: "paint_batches_of paint_summary (paint_code r) = total_batches r"
    if "r \<in> set paint_summary" for r
    using that distinct_codes_of_names [OF b(2)] by (rule paint_batches_of_row [rotated])
  have feas: "feasible v prob \<longleftrightarrow> (\<forall>c \<in> set (model_constraints paint_summary). satisfies v c)"
    unfolding b(3) by (rule feasible_sanitized)
  have obj: "eval_expr v (lp_objective prob) =
     1000 * (\<Sum>s\<leftarrow>[0..<nat (schedule_length paint_summary)]. v (Y s)) +
     1 * (\<Sum>r\<leftarrow>paint_summary.
            \<Sum>i\<leftarrow>[0..<nat (paint_batches_of paint_summary (paint_code r))].
            \<Sum>s\<leftarrow>[0..<nat (schedule_length paint_summary)]. v (Dev (paint_code r) i s))"
    unfolding b(3) by (simp add: eval_objective o_def)
  have len: "length (lp_constraints prob) = length (model_constraints paint_summary)"
    unfolding b(3) by simp
  show ?thesis
    unfolding feas feasible_model_constraints obj len length_model_constraints
    by (simp add: pb cong: map_cong)
qed

lemma example_builds: "\<not> isl (build_model example_summary)"
  by code_simp


lemma example_feasible: "feasible example_values (projr (build_model example_summary))"
  by code_simp

lemma example_objective:
  "1000 * (\<Sum>s\<leftarrow>[0..<nat (schedule_length example_summary)]. example_values (Y s)) +
   1 * (\<Sum>r\<leftarrow>example_summary. \<Sum>i\<leftarrow>[0..<nat (total_batches r)].
          \<Sum>s\<leftarrow>[0..<nat (schedule_length example_summary)]. example_values (Dev (paint_code r) i s))
   = 3018"
  by code_simp

theorem model_constraint_families_witness:
  "\<exists>prob. build_model example_summary = Inr prob \<and> feasible example_values prob \<and>
     example_values (Y 0) = 1 \<and> eval_expr example_values (lp_objective prob) = 3018"
proof -
  obtain prob where h: "build_model example_summary = Inr prob"
    using example_builds by (cases "build_model example_summary") auto
  have f: "feasible example_values prob"
    using example_feasible h by simp
  note t = model_constraint_families [OF h, of example_values]
  from t f have "example_values (Y 0) = 1"
    by blast
  moreover from t have "eval_expr example_values (lp_objective prob) = 3018"
    unfolding example_objective by blast
  ultimately show ?thesis
    using h f by blast
qed

text \<open>
  The names of the constraints overlap for the paint codes \<^verbatim>\<open>A-B\<close> and \<^verbatim>\<open>A_B\<close>, and do
  not for \<^verbatim>\<open>A/B\<close> and \<^verbatim>\<open>A_B\<close>, whose model is built.
\<close>

lemma constraint_name_overlap:
  "\<not> isl (build_model slash_summary) \<and> build_model hyphen_summary = Inl PulpError"
  by code_simp













subsection \<open>Solution extraction\<close>

lemma first_assigned_find:
  "first_assigned v cs b = find (\<lambda>c. 0.5 < v (X c b)) cs"
  by (induction cs) auto

lemma extract_positions_aux:
  "map batch_position (concat (map (\<lambda>b. case first_assigned v paint_codes b of
                         None \<Rightarrow> []
                       | Some c \<Rightarrow> [\<lparr>batch_position = int b, b_paint_code = c\<rparr>]) bs))
   = map int (filter (\<lambda>b. \<exists>c \<in> set paint_codes. 0.5 < v (X c b)) bs)"
proof (induction bs)
  case Nil
  then show ?case by simp
next
  case (Cons b bs)
  show ?case
  proof (cases "first_assigned v paint_codes b")
    case None
    then have "\<not> (\<exists>c \<in> set paint_codes. 0.5 < v (X c b))"
      by (simp add: first_assigned_find find_None_iff)
    with None Cons.IH show ?thesis by simp
  next
    case (Some c)
    then have "\<exists>c \<in> set paint_codes. 0.5 < v (X c b)"
      by (auto simp: first_assigned_find find_Some_iff)
    with Some Cons.IH show ?thesis by simp
  qed
qed

lemma extract_positions:
  "map batch_position (extract_solution v paint_codes n_total)
   = map int (filter (\<lambda>b. \<exists>c \<in> set paint_codes. 0.5 < v (X c b)) [0..<nat n_total])"
  unfolding extract_solution_def by (rule extract_positions_aux)

lemma extract_rows:
  assumes "r \<in> set (extract_solution v paint_codes n_total)"
  shows "find (\<lambda>c. 0.5 < v (X c (nat (batch_position r)))) paint_codes = Some (b_paint_code r)"
  using assms
  by (auto simp: extract_solution_def first_assigned_find split: option.splits)

lemma length_filter_all:
  "length (filter P xs) = length xs \<longleftrightarrow> (\<forall>x \<in> set xs. P x)"
proof
  assume "length (filter P xs) = length xs"
  with sum_length_filter_compl [of P xs] have "filter (\<lambda>x. \<not> P x) xs = []"
    by simp
  then show "\<forall>x \<in> set xs. P x"
    by (simp add: filter_empty_conv)
next
  assume "\<forall>x \<in> set xs. P x"
  then show "length (filter P xs) = length xs"
    by simp
qed

text \<open>
  C7, amended. The extraction never fails. The slots of the batch sequence are the slots
  in which some paint code is above 0.5, in ascending order, each once; the paint code of
  an entry is the first paint code of the summary that is above 0.5 in its slot; and the
  sequence has one entry for each of the \<open>total_batches\<close> slots exactly when every slot
  has a paint code above 0.5.
\<close>

theorem extraction_first_above_threshold:
  "map batch_position (extract_solution v paint_codes n_total)
     = map int (filter (\<lambda>b. \<exists>c \<in> set paint_codes. 0.5 < v (X c b)) [0..<nat n_total]) \<and>
   sorted_wrt (<) (map batch_position (extract_solution v paint_codes n_total)) \<and>
   (\<forall>r \<in> set (extract_solution v paint_codes n_total).
      find (\<lambda>c. 0.5 < v (X c (nat (batch_position r)))) paint_codes = Some (b_paint_code r)) \<and>
   (length (extract_solution v paint_codes n_total) = nat n_total \<longleftrightarrow>
      (\<forall>b < nat n_total. \<exists>c \<in> set paint_codes. 0.5 < v (X c b)))"
proof (intro conjI ballI)
  show p: "map batch_position (extract_solution v paint_codes n_total)
     = map int (filter (\<lambda>b. \<exists>c \<in> set paint_codes. 0.5 < v (X c b)) [0..<nat n_total])"
    by (rule extract_positions)
  show "sorted_wrt (<) (map batch_position (extract_solution v paint_codes n_total))"
    unfolding p by (simp add: sorted_wrt_map sorted_wrt_filter)
  have "length (extract_solution v paint_codes n_total)
        = length (filter (\<lambda>b. \<exists>c \<in> set paint_codes. 0.5 < v (X c b)) [0..<nat n_total])"
    using arg_cong [OF p, of length] by simp
  then show "length (extract_solution v paint_codes n_total) = nat n_total \<longleftrightarrow>
      (\<forall>b < nat n_total. \<exists>c \<in> set paint_codes. 0.5 < v (X c b))"
    using length_filter_all [of "\<lambda>b. \<exists>c \<in> set paint_codes. 0.5 < v (X c b)" "[0..<nat n_total]"]
    by auto
next
  fix r assume "r \<in> set (extract_solution v paint_codes n_total)"
  then show "find (\<lambda>c. 0.5 < v (X c (nat (batch_position r)))) paint_codes = Some (b_paint_code r)"
    by (rule extract_rows)
qed

lemma example_extraction:
  "extract_solution example_values [''A'', ''B''] 3 =
     [\<lparr>batch_position = 0, b_paint_code = ''A''\<rparr>,
      \<lparr>batch_position = 1, b_paint_code = ''B''\<rparr>,
      \<lparr>batch_position = 2, b_paint_code = ''A''\<rparr>]"
  by code_simp

theorem extraction_first_above_threshold_witness:
  "\<lparr>batch_position = 1, b_paint_code = ''B''\<rparr> \<in> set (extract_solution example_values [''A'', ''B''] 3) \<and>
   find (\<lambda>c. 0.5 < example_values (X c (nat 1))) [''A'', ''B''] = Some ''B'' \<and>
   length (extract_solution example_values [''A'', ''B''] 3) = nat 3 \<and>
   (\<exists>c \<in> set [''A'', ''B'']. 0.5 < example_values (X c 2))"
proof -
  note t = extraction_first_above_threshold [of example_values "[''A'', ''B'']" 3]
  have m: "\<lparr>batch_position = 1, b_paint_code = ''B''\<rparr>
      \<in> set (extract_solution example_values [''A'', ''B''] 3)"
    by (simp add: example_extraction)
  with t have "find (\<lambda>c. 0.5 < example_values (X c (nat (batch_position
      \<lparr>batch_position = 1, b_paint_code = ''B''\<rparr>)))) [''A'', ''B'']
      = Some (b_paint_code \<lparr>batch_position = 1, b_paint_code = ''B''\<rparr>)"
    by blast
  then have f: "find (\<lambda>c. 0.5 < example_values (X c (nat 1))) [''A'', ''B''] = Some ''B''"
    by simp
  have l: "length (extract_solution example_values [''A'', ''B''] 3) = nat 3"
    by (simp add: example_extraction)
  with t have "\<forall>b < nat 3. \<exists>c \<in> set [''A'', ''B'']. 0.5 < example_values (X c b)"
    by blast
  then have "\<exists>c \<in> set [''A'', ''B'']. 0.5 < example_values (X c 2)"
    by simp
  with m f l show ?thesis
    by blast
qed

text \<open>
  C7, as the claim states it, fails: a slot in which no paint code is above 0.5 is
  skipped, and of two paint codes above 0.5 the first is taken; neither is an error.
\<close>

theorem extraction_integrity_counterexample:
  "extract_solution (\<lambda>x. 0) [''A''] 1 = [] \<and>
   extract_solution (\<lambda>x. 1) [''A'', ''B''] 1 = [\<lparr>batch_position = 0, b_paint_code = ''A''\<rparr>]"
  by code_simp

subsection \<open>The assignment of vehicles\<close>

lemma append_vehicles_eq:
  "append_vehicles batch_pos vs (va, cs) =
     (va @ batch_rows batch_pos cs vs, cs + int (length vs))"
  by (induction vs arbitrary: va cs) auto

lemma batch_rows_vin [simp]: "map s_vin (batch_rows pos cs vs) = map vin vs"
  by (induction vs arbitrary: cs) auto

lemma batch_rows_paint [simp]: "map s_paint (batch_rows pos cs vs) = map paint vs"
  by (induction vs arbitrary: cs) auto

lemma batch_rows_original [simp]:
  "map s_original_sequence (batch_rows pos cs vs) = map production_sequence vs"
  by (induction vs arbitrary: cs) auto

lemma batch_rows_key [simp]:
  "map (\<lambda>r. (s_vin r, s_original_sequence r)) (batch_rows pos cs vs)
     = map (\<lambda>v. (vin v, production_sequence v)) vs"
  by (induction vs arbitrary: cs) auto

lemma batch_rows_batch_id [simp]:
  "map s_batch_id (batch_rows pos cs vs) = replicate (length vs) (pos + 1)"
  by (induction vs arbitrary: cs) auto

lemma batch_rows_sequence [simp]:
  "map s_production_sequence (batch_rows pos cs vs) = map (\<lambda>k. cs + int k) [0..<length vs]"
proof (induction vs arbitrary: cs)
  case Nil
  then show ?case by simp
next
  case (Cons v vs)
  have "[0..<Suc (length vs)] = 0 # map Suc [0..<length vs]"
    by (simp add: upt_conv_Cons map_Suc_upt del: upt_Suc)
  then show ?case
    using Cons.IH [of "cs + 1"] by (simp add: o_def add.assoc del: upt_Suc)
qed

lemma length_batch_rows [simp]: "length (batch_rows pos cs vs) = length vs"
  by (induction vs arbitrary: cs) auto

lemma assign_loop_step:
  "assign_loop bs vdf (batch # rest) (va, cs) =
     assign_loop bs vdf rest
       (va @ batch_rows (batch_position batch) cs (paint_vehicles bs vdf va (b_paint_code batch)),
        cs + int (length (paint_vehicles bs vdf va (b_paint_code batch))))"
  by (simp add: append_vehicles_eq)

lemma head_df_take: "\<exists>m. head_df n xs = take m xs"
  by (auto simp: head_df_def)

lemma head_df_nonneg: "0 \<le> n \<Longrightarrow> head_df n xs = take (nat n) xs"
  by (simp add: head_df_def)

lemma set_head_df: "set (head_df n xs) \<subseteq> set xs"
  by (auto simp: head_df_def dest: in_set_takeD)

lemma paint_vehicles_paint:
  "v \<in> set (paint_vehicles bs vdf va p) \<Longrightarrow> paint v = Some p"
  using set_head_df by (fastforce simp: paint_vehicles_def)

lemma batch_rows_paint_mem:
  "r \<in> set (batch_rows pos cs vs) \<Longrightarrow> s_paint r \<in> paint ` set vs"
  by (induction vs arbitrary: cs) auto

lemma batch_rows_filter_same:
  assumes "\<forall>v \<in> set vs. paint v = Some p"
  shows "filter (\<lambda>r. s_paint r = Some p) (batch_rows pos cs vs) = batch_rows pos cs vs"
  unfolding filter_id_conv using assms batch_rows_paint_mem by fastforce

lemma batch_rows_filter_other:
  assumes "\<forall>v \<in> set vs. paint v = Some p" and "c \<noteq> p"
  shows "filter (\<lambda>r. s_paint r = Some c) (batch_rows pos cs vs) = []"
  unfolding filter_empty_conv using assms batch_rows_paint_mem by fastforce

lemma take_filter_ex: "\<exists>j. take m (filter P xs) = filter P (take j xs)"
proof (induction xs arbitrary: m)
  case Nil
  then show ?case by simp
next
  case (Cons x xs)
  show ?case
  proof (cases m)
    case 0
    then show ?thesis
      by (intro exI [of _ 0]) simp
  next
    case (Suc k)
    obtain j where j: "take k (filter P xs) = filter P (take j xs)"
      using Cons.IH by blast
    obtain j' where j': "take (Suc k) (filter P xs) = filter P (take j' xs)"
      using Cons.IH by blast
    show ?thesis
    proof (cases "P x")
      case True
      with Suc j show ?thesis
        by (intro exI [of _ "Suc j"]) simp
    next
      case False
      with Suc j' show ?thesis
        by (intro exI [of _ "Suc j'"]) simp
    qed
  qed
qed

lemma sorted_wrt_subseq:
  "subseq ys xs \<Longrightarrow> sorted_wrt R xs \<Longrightarrow> sorted_wrt R ys"
proof (induction rule: list_emb.induct)
  case (list_emb_Nil ys)
  then show ?case by simp
next
  case (list_emb_Cons xs ys y)
  then show ?case by simp
next
  case (list_emb_Cons2 x y xs ys)
  then have "set xs \<subseteq> set ys"
    using list_emb_set [of "(=)" xs ys] by auto
  with list_emb_Cons2 show ?case
    by auto
qed

lemma order_kept_start: "order_kept vdf c []"
  unfolding order_kept_def by (rule exI [of _ "[]"]) simp

lemma order_kept_other:
  assumes "order_kept vdf c va" and "c \<noteq> p"
  shows "order_kept vdf c (va @ batch_rows pos cs (paint_vehicles bs vdf va p))"
proof -
  have "filter (\<lambda>r. s_paint r = Some c) (batch_rows pos cs (paint_vehicles bs vdf va p)) = []"
    by (rule batch_rows_filter_other [OF _ assms(2)]) (simp add: paint_vehicles_paint)
  with assms(1) show ?thesis
    unfolding order_kept_def by auto
qed

lemma order_kept_same:
  assumes "order_kept vdf c va"
  shows "order_kept vdf c (va @ batch_rows pos cs (paint_vehicles bs vdf va c))"
proof -
  define N where "N = (\<lambda>v :: vehicle. vin v \<notin> set (map s_vin va))"
  obtain pre post where
    split: "filter (\<lambda>v. paint v = Some c) vdf = pre @ post" and
    sub: "subseq (map (\<lambda>r. (s_vin r, s_original_sequence r))
                  (filter (\<lambda>r. s_paint r = Some c) va))
               (map (\<lambda>v. (vin v, production_sequence v)) pre)" and
    done_pre: "\<forall>u \<in> set pre. vin u \<in> set (map s_vin va)"
    using assms unfolding order_kept_def by blast
  have "filter (\<lambda>v. paint v = Some c \<and> vin v \<notin> set (map s_vin va)) vdf
        = filter N (filter (\<lambda>v. paint v = Some c) vdf)"
    by (simp add: N_def)
  also have "\<dots> = filter N pre @ filter N post"
    by (simp add: split)
  also have "filter N pre = []"
    using done_pre by (simp add: N_def filter_empty_conv)
  finally have avail: "filter (\<lambda>v. paint v = Some c \<and> vin v \<notin> set (map s_vin va)) vdf
        = filter N post"
    by simp
  obtain m where "paint_vehicles bs vdf va c = take m (filter N post)"
    unfolding paint_vehicles_def avail using head_df_take by blast
  then obtain j where taken: "paint_vehicles bs vdf va c = filter N (take j post)"
    using take_filter_ex [of m N post] by auto
  let ?new = "batch_rows pos cs (paint_vehicles bs vdf va c)"
  have all_c: "filter (\<lambda>r. s_paint r = Some c) ?new = ?new"
    by (rule batch_rows_filter_same) (simp add: paint_vehicles_paint)
  have s1: "filter (\<lambda>v. paint v = Some c) vdf = (pre @ take j post) @ drop j post"
    by (simp add: split)
  have "subseq (map (\<lambda>v. (vin v, production_sequence v)) (filter N (take j post)))
               (map (\<lambda>v. (vin v, production_sequence v)) (take j post))"
    by (intro subseq_map) simp
  then have s2: "subseq (map (\<lambda>r. (s_vin r, s_original_sequence r))
                  (filter (\<lambda>r. s_paint r = Some c) (va @ ?new)))
               (map (\<lambda>v. (vin v, production_sequence v)) (pre @ take j post))"
    using sub by (simp add: all_c taken [symmetric] list_emb_append_mono)
  have s3: "\<forall>u \<in> set (pre @ take j post). vin u \<in> set (map s_vin (va @ ?new))"
  proof
    fix u assume "u \<in> set (pre @ take j post)"
    then consider "u \<in> set pre" | "u \<in> set (take j post)" "N u" | "u \<in> set (take j post)" "\<not> N u"
      by auto
    then show "vin u \<in> set (map s_vin (va @ ?new))"
    proof cases
      case 1
      with done_pre show ?thesis by simp
    next
      case 2
      then have "u \<in> set (paint_vehicles bs vdf va c)"
        by (simp add: taken)
      then show ?thesis by simp
    next
      case 3
      then show ?thesis by (simp add: N_def)
    qed
  qed
  from s1 s2 s3 show ?thesis
    unfolding order_kept_def by blast
qed

lemma order_kept_loop:
  "order_kept vdf c va \<Longrightarrow> order_kept vdf c (fst (assign_loop bs vdf batches (va, cs)))"
proof (induction batches arbitrary: va cs)
  case Nil
  then show ?case by simp
next
  case (Cons batch rest)
  have "order_kept vdf c
      (va @ batch_rows (batch_position batch) cs (paint_vehicles bs vdf va (b_paint_code batch)))"
    using Cons.prems order_kept_other order_kept_same by (cases "c = b_paint_code batch") auto
  then show ?case
    unfolding assign_loop_step by (rule Cons.IH)
qed

lemma assign_order:
  assumes "assign_vehicles_to_batches bs vdf batch_sequence = Inr sol"
  shows "subseq (map (\<lambda>r. (s_vin r, s_original_sequence r)) (filter (\<lambda>r. s_paint r = Some c) sol))
                (map (\<lambda>v. (vin v, production_sequence v)) (filter (\<lambda>v. paint v = Some c) vdf))"
proof -
  have sol: "sol = fst (assign_loop bs vdf (sort_key batch_position batch_sequence) ([], 1))"
    using assms by (simp add: assign_vehicles_to_batches_def split: if_splits)
  have "order_kept vdf c sol"
    unfolding sol by (rule order_kept_loop [OF order_kept_start])
  then obtain pre post where
    split: "filter (\<lambda>v. paint v = Some c) vdf = pre @ post" and
    sub: "subseq (map (\<lambda>r. (s_vin r, s_original_sequence r))
                  (filter (\<lambda>r. s_paint r = Some c) sol))
               (map (\<lambda>v. (vin v, production_sequence v)) pre)"
    unfolding order_kept_def by blast
  have "subseq (map (\<lambda>v. (vin v, production_sequence v)) pre)
               (map (\<lambda>v. (vin v, production_sequence v)) (pre @ post))"
    by (intro subseq_map) (simp add: prefix_imp_subseq)
  with sub show ?thesis
    unfolding split by (rule subseq_order.trans)
qed

lemma upt_shift: "[0..<a + b] = [0..<a] @ map (\<lambda>k. a + k) [0..<b]"
  by (induction b) simp_all

lemma sequence_extend:
  assumes "cs = 1 + int (length va)"
    and "map s_production_sequence va = map (\<lambda>k. 1 + int k) [0..<length va]"
  shows "map s_production_sequence (va @ batch_rows pos cs vs)
         = map (\<lambda>k. 1 + int k) [0..<length (va @ batch_rows pos cs vs)]"
proof -
  have "map (\<lambda>k. 1 + int k) [0..<length va + length vs]
        = map (\<lambda>k. 1 + int k) [0..<length va] @ map (\<lambda>k. cs + int k) [0..<length vs]"
    unfolding upt_shift [of "length va" "length vs"] assms(1)
    by (simp add: o_def)
  then show ?thesis
    using assms(2) by simp
qed

lemma assign_loop_sequence:
  assumes "cs = 1 + int (length va)"
    and "map s_production_sequence va = map (\<lambda>k. 1 + int k) [0..<length va]"
  shows "map s_production_sequence (fst (assign_loop bs vdf batches (va, cs)))
         = map (\<lambda>k. 1 + int k) [0..<length (fst (assign_loop bs vdf batches (va, cs)))]"
  using assms
proof (induction batches arbitrary: va cs)
  case Nil
  then show ?case by simp
next
  case (Cons batch rest)
  define vs where "vs = paint_vehicles bs vdf va (b_paint_code batch)"
  define va' where "va' = va @ batch_rows (batch_position batch) cs vs"
  have 1: "cs + int (length vs) = 1 + int (length va')"
    using Cons.prems(1) by (simp add: va'_def)
  have 2: "map s_production_sequence va' = map (\<lambda>k. 1 + int k) [0..<length va']"
    unfolding va'_def by (rule sequence_extend [OF Cons.prems])
  have "assign_loop bs vdf (batch # rest) (va, cs)
        = assign_loop bs vdf rest (va', cs + int (length vs))"
    unfolding assign_loop_step va'_def vs_def by (rule refl)
  then show ?case
    using Cons.IH [OF 1 2] by simp
qed

lemma assign_sequence:
  assumes "assign_vehicles_to_batches bs vdf batch_sequence = Inr sol" and "i < length sol"
  shows "s_production_sequence (sol ! i) = 1 + int i"
proof -
  have sol: "sol = fst (assign_loop bs vdf (sort_key batch_position batch_sequence) ([], 1))"
    using assms by (simp add: assign_vehicles_to_batches_def split: if_splits)
  have "map s_production_sequence sol = map (\<lambda>k. 1 + int k) [0..<length sol]"
    unfolding sol by (rule assign_loop_sequence) simp_all
  from arg_cong [OF this, of "\<lambda>xs. xs ! i"] assms(2) show ?thesis
    by simp
qed

lemma sorted_filter_earlier:
  assumes "sorted_wrt R (map f (filter P xs))"
    and "j < i" and "i < length xs" and "P (xs ! j)" and "P (xs ! i)"
  shows "R (f (xs ! j)) (f (xs ! i))"
proof -
  define pre where "pre = take i xs"
  define post where "post = drop (Suc i) xs"
  have xs: "xs = pre @ xs ! i # post"
    using assms(3) by (simp add: id_take_nth_drop pre_def post_def)
  have "xs ! j = pre ! j" and "j < length pre"
    using assms(2,3) by (simp_all add: pre_def)
  then have "xs ! j \<in> set pre"
    by (metis nth_mem)
  with assms(4) have a: "f (xs ! j) \<in> set (map f (filter P pre))"
    by simp
  have "filter P xs = filter P pre @ xs ! i # filter P post"
    using assms(5) by (subst xs) simp
  then have "sorted_wrt R (map f (filter P pre) @ f (xs ! i) # map f (filter P post))"
    using assms(1) by simp
  then have "\<forall>x \<in> set (map f (filter P pre)). R x (f (xs ! i))"
    by (simp add: sorted_wrt_append)
  with a show ?thesis
    by blast
qed

text \<open>
  C4, amended. The assignment keeps the row order of the table within each paint code:
  the units assigned to a paint code are, in their new order, a subsequence of the
  table's units of that paint. So for a table listed in ascending original sequence,
  of two assigned units of one paint the one with the smaller original index comes
  first and gets the smaller new index.
\<close>

theorem assignment_keeps_table_order:
  assumes "assign_vehicles_to_batches batch_size vehicles_df batch_sequence = Inr solution_df"
  shows "subseq (map (\<lambda>r. (s_vin r, s_original_sequence r))
                   (filter (\<lambda>r. s_paint r = Some c) solution_df))
                (map (\<lambda>v. (vin v, production_sequence v))
                   (filter (\<lambda>v. paint v = Some c) vehicles_df)) \<and>
         (sorted_wrt (<) (map production_sequence vehicles_df) \<longrightarrow>
            (\<forall>i < length solution_df. \<forall>j < length solution_df.
               s_paint (solution_df ! i) = Some c \<and> s_paint (solution_df ! j) = Some c \<and>
               s_original_sequence (solution_df ! i) < s_original_sequence (solution_df ! j) \<longrightarrow>
                 i < j \<and>
                 s_production_sequence (solution_df ! i) < s_production_sequence (solution_df ! j)))"
proof (rule conjI)
  show sub: "subseq (map (\<lambda>r. (s_vin r, s_original_sequence r))
                   (filter (\<lambda>r. s_paint r = Some c) solution_df))
                (map (\<lambda>v. (vin v, production_sequence v))
                   (filter (\<lambda>v. paint v = Some c) vehicles_df))"
    by (rule assign_order [OF assms])
  show "sorted_wrt (<) (map production_sequence vehicles_df) \<longrightarrow>
            (\<forall>i < length solution_df. \<forall>j < length solution_df.
               s_paint (solution_df ! i) = Some c \<and> s_paint (solution_df ! j) = Some c \<and>
               s_original_sequence (solution_df ! i) < s_original_sequence (solution_df ! j) \<longrightarrow>
                 i < j \<and>
                 s_production_sequence (solution_df ! i) < s_production_sequence (solution_df ! j))"
  proof (intro impI allI)
  fix i j
  assume sorted: "sorted_wrt (<) (map production_sequence vehicles_df)"
    and i: "i < length solution_df" and j: "j < length solution_df"
    and h: "s_paint (solution_df ! i) = Some c \<and> s_paint (solution_df ! j) = Some c \<and>
            s_original_sequence (solution_df ! i) < s_original_sequence (solution_df ! j)"
  have "subseq (map snd (map (\<lambda>r. (s_vin r, s_original_sequence r))
                   (filter (\<lambda>r. s_paint r = Some c) solution_df)))
               (map snd (map (\<lambda>v. (vin v, production_sequence v))
                   (filter (\<lambda>v. paint v = Some c) vehicles_df)))"
    using sub by (rule subseq_map)
  then have s: "subseq (map s_original_sequence (filter (\<lambda>r. s_paint r = Some c) solution_df))
               (map production_sequence (filter (\<lambda>v. paint v = Some c) vehicles_df))"
    by (simp add: o_def)
  have "sorted_wrt (<) (map production_sequence (filter (\<lambda>v. paint v = Some c) vehicles_df))"
    using sorted by (simp add: sorted_wrt_map sorted_wrt_filter)
  with s have so: "sorted_wrt (<)
      (map s_original_sequence (filter (\<lambda>r. s_paint r = Some c) solution_df))"
    by (rule sorted_wrt_subseq)
  have "i < j"
  proof (rule ccontr)
    assume "\<not> i < j"
    with h have "j < i"
      by (cases "i = j") auto
    from sorted_filter_earlier [OF so this i] h
    show False by simp
  qed
  then show "i < j \<and>
      s_production_sequence (solution_df ! i) < s_production_sequence (solution_df ! j)"
    using assign_sequence [OF assms i] assign_sequence [OF assms j] by simp
  qed
qed

lemma example_assignment:
  "assign_vehicles_to_batches 2 example_vehicles example_batches = Inr example_solution"
  by code_simp

theorem assignment_keeps_table_order_witness:
  "assign_vehicles_to_batches 2 example_vehicles example_batches = Inr example_solution \<and>
   sorted_wrt (<) (map production_sequence example_vehicles) \<and>
   s_original_sequence (example_solution ! 0) < s_original_sequence (example_solution ! 3) \<and>
   s_production_sequence (example_solution ! 0) < s_production_sequence (example_solution ! 3)"
proof -
  note t = assignment_keeps_table_order [OF example_assignment, of "''A''"]
  have s: "sorted_wrt (<) (map production_sequence example_vehicles)"
    by (simp add: example_vehicles_def)
  have p: "(0::nat) < length example_solution \<and> (3::nat) < length example_solution \<and>
      s_paint (example_solution ! 0) = Some ''A'' \<and> s_paint (example_solution ! 3) = Some ''A'' \<and>
      s_original_sequence (example_solution ! 0) < s_original_sequence (example_solution ! 3)"
    by (simp add: example_solution_def)
  from t s p have "s_production_sequence (example_solution ! 0)
      < s_production_sequence (example_solution ! 3)"
    by blast
  with s p example_assignment show ?thesis
    by blast
qed

text \<open>
  C4, as the claim states it, fails for a table that is not listed in its original
  sequence: V2 has the smaller original index and is assigned after V1.
\<close>

theorem original_order_counterexample:
  "assign_vehicles_to_batches 20 unsorted_vehicles [\<lparr>batch_position = 0, b_paint_code = ''A''\<rparr>] =
     Inr [\<lparr>s_vin = ''V1'', s_paint = Some ''A'', s_batch_id = 1, s_production_sequence = 1,
            s_original_sequence = 2, s_planned_ga_in_datetime = None\<rparr>,
          \<lparr>s_vin = ''V2'', s_paint = Some ''A'', s_batch_id = 1, s_production_sequence = 2,
            s_original_sequence = 1, s_planned_ga_in_datetime = None\<rparr>]"
  by code_simp

lemma filter_not_taken:
  assumes "distinct (map f xs)"
  shows "filter (\<lambda>x. f x \<notin> set (take n (map f xs))) xs = drop n xs"
proof -
  have d: "distinct (map f (take n xs) @ map f (drop n xs))"
    using assms by (simp flip: map_append)
  have s: "set (take n (map f xs)) = f ` set (take n xs)"
    by (simp add: take_map)
  have 1: "filter (\<lambda>x. f x \<notin> f ` set (take n xs)) (take n xs) = []"
    by (simp add: filter_empty_conv)
  have 2: "filter (\<lambda>x. f x \<notin> f ` set (take n xs)) (drop n xs) = drop n xs"
    using d by (auto simp: filter_id_conv)
  have "filter (\<lambda>x. f x \<notin> f ` set (take n xs)) (take n xs @ drop n xs) = drop n xs"
    unfolding filter_append 1 2 by simp
  then show ?thesis
    unfolding s by simp
qed

lemma filled_start: "filled bs vdf (\<lambda>c. 0) []"
  by (simp add: filled_def)

lemma filled_available:
  assumes d: "distinct (map vin vdf)" and f: "filled bs vdf k va"
  shows "filter (\<lambda>v. paint v = Some p \<and> vin v \<notin> set (map s_vin va)) vdf
         = drop (nat bs * k p) (filter (\<lambda>v. paint v = Some p) vdf)"
proof -
  define Vp where "Vp = filter (\<lambda>v. paint v = Some p) vdf"
  define n where "n = nat bs * k p"
  have inj: "inj_on vin (set vdf)"
    using d by (simp add: distinct_map)
  have taken: "map s_vin (filter (\<lambda>r. s_paint r = Some c) va) =
      take (nat bs * k c) (map vin (filter (\<lambda>v. paint v = Some c) vdf))" for c
    using f by (simp add: filled_def)
  have A: "vin v \<in> set (map s_vin va) \<longleftrightarrow> vin v \<in> set (take n (map vin Vp))"
    if v: "v \<in> set Vp" for v
  proof
    assume "vin v \<in> set (take n (map vin Vp))"
    then have "vin v \<in> set (map s_vin (filter (\<lambda>r. s_paint r = Some p) va))"
      unfolding taken n_def Vp_def .
    then show "vin v \<in> set (map s_vin va)"
      by auto
  next
    assume "vin v \<in> set (map s_vin va)"
    then obtain r where r: "r \<in> set va" "s_vin r = vin v"
      by auto
    then obtain c where c: "s_paint r = Some c"
      using f by (auto simp: filled_def)
    with r have "vin v \<in> set (map s_vin (filter (\<lambda>r. s_paint r = Some c) va))"
      by force
    then have m: "vin v \<in> set (take (nat bs * k c) (map vin (filter (\<lambda>v. paint v = Some c) vdf)))"
      unfolding taken .
    then have "vin v \<in> vin ` set (filter (\<lambda>v. paint v = Some c) vdf)"
      by (auto dest: in_set_takeD)
    then obtain u where u: "u \<in> set vdf" "paint u = Some c" "vin u = vin v"
      by auto
    from v have "v \<in> set vdf" "paint v = Some p"
      by (simp_all add: Vp_def)
    with u inj have "u = v"
      by (auto dest: inj_onD)
    with u \<open>paint v = Some p\<close> have "c = p"
      by simp
    with m show "vin v \<in> set (take n (map vin Vp))"
      by (simp add: n_def Vp_def)
  qed
  have "filter (\<lambda>v. paint v = Some p \<and> vin v \<notin> set (map s_vin va)) vdf
        = filter (\<lambda>v. vin v \<notin> set (map s_vin va)) Vp"
    by (simp add: Vp_def)
  also have "\<dots> = filter (\<lambda>v. vin v \<notin> set (take n (map vin Vp))) Vp"
    by (rule filter_cong) (simp_all only: A)
  also have "\<dots> = drop n Vp"
  proof (rule filter_not_taken)
    have "distinct (map vin (filter (\<lambda>v. paint v = Some p) vdf))"
      using d by (rule distinct_map_filter)
    then show "distinct (map vin Vp)"
      by (simp add: Vp_def)
  qed
  finally show ?thesis
    by (simp add: n_def Vp_def)
qed

lemma filled_step:
  assumes d: "distinct (map vin vdf)" and b: "0 \<le> bs" and f: "filled bs vdf k va"
  shows "filled bs vdf (k (p := Suc (k p)))
           (va @ batch_rows pos cs (paint_vehicles bs vdf va p))"
proof -
  define Vp where "Vp = filter (\<lambda>v. paint v = Some p) vdf"
  define n where "n = nat bs * k p"
  let ?vs = "paint_vehicles bs vdf va p"
  have vs: "?vs = take (nat bs) (drop n Vp)"
    unfolding paint_vehicles_def filled_available [OF d f] using b
    by (simp add: head_df_nonneg n_def Vp_def)
  have same: "filter (\<lambda>r. s_paint r = Some p) (batch_rows pos cs ?vs) = batch_rows pos cs ?vs"
    by (rule batch_rows_filter_same) (simp add: paint_vehicles_paint)
  have other: "filter (\<lambda>r. s_paint r = Some c) (batch_rows pos cs ?vs) = []" if "c \<noteq> p" for c
    by (rule batch_rows_filter_other [OF _ that]) (simp add: paint_vehicles_paint)
  have taken: "map s_vin (filter (\<lambda>r. s_paint r = Some c) va) =
      take (nat bs * k c) (map vin (filter (\<lambda>v. paint v = Some c) vdf))" for c
    using f by (simp add: filled_def)
  have 1: "map s_vin (filter (\<lambda>r. s_paint r = Some c) (va @ batch_rows pos cs ?vs)) =
      take (nat bs * (k (p := Suc (k p))) c) (map vin (filter (\<lambda>v. paint v = Some c) vdf))" for c
  proof (cases "c = p")
    case True
    have "map s_vin (filter (\<lambda>r. s_paint r = Some p) (va @ batch_rows pos cs ?vs))
          = take n (map vin Vp) @ map vin ?vs"
      by (simp add: same taken n_def Vp_def)
    also have "map vin ?vs = take (nat bs) (drop n (map vin Vp))"
      by (simp add: vs take_map drop_map)
    also have "take n (map vin Vp) @ take (nat bs) (drop n (map vin Vp))
        = take (n + nat bs) (map vin Vp)"
      by (simp add: take_add)
    finally show ?thesis
      using True by (simp add: n_def Vp_def add.commute)
  next
    case False
    then show ?thesis
      by (simp add: other taken)
  qed
  have 2: "\<forall>r \<in> set (va @ batch_rows pos cs ?vs). s_paint r \<noteq> None"
  proof
    fix r assume "r \<in> set (va @ batch_rows pos cs ?vs)"
    then consider "r \<in> set va" | "r \<in> set (batch_rows pos cs ?vs)"
      by auto
    then show "s_paint r \<noteq> None"
    proof cases
      case 1
      with f show ?thesis by (simp add: filled_def)
    next
      case 2
      then have "s_paint r \<in> paint ` set ?vs"
        by (rule batch_rows_paint_mem)
      then show ?thesis
        by (auto dest: paint_vehicles_paint)
    qed
  qed
  from 1 2 show ?thesis
    unfolding filled_def by blast
qed

lemma filled_loop:
  assumes "distinct (map vin vdf)" and "0 \<le> bs" and "filled bs vdf k va"
  shows "filled bs vdf (\<lambda>c. k c + length (filter (\<lambda>b. b_paint_code b = c) batches))
           (fst (assign_loop bs vdf batches (va, cs)))"
  using assms(3)
proof (induction batches arbitrary: va cs k)
  case Nil
  then show ?case by simp
next
  case (Cons batch rest)
  let ?p = "b_paint_code batch"
  have e: "(\<lambda>c. (k (?p := Suc (k ?p))) c + length (filter (\<lambda>b. b_paint_code b = c) rest))
         = (\<lambda>c. k c + length (filter (\<lambda>b. b_paint_code b = c) (batch # rest)))"
    by (auto simp: fun_eq_iff)
  have "filled bs vdf (k (?p := Suc (k ?p)))
      (va @ batch_rows (batch_position batch) cs (paint_vehicles bs vdf va ?p))"
    by (rule filled_step [OF assms(1,2) Cons.prems])
  from Cons.IH [OF this, of "cs + int (length (paint_vehicles bs vdf va ?p))"]
  show ?case
    unfolding assign_loop_step e .
qed

lemma length_filter_sort_key:
  "length (filter P (sort_key f xs)) = length (filter P xs)"
  by (simp add: filter_sort)

text \<open>
  C8, amended. The assignment has no shortfall check: for every batch sequence with a
  row it returns a unit sequence. With unique VINs and a batch size \<open>\<ge> 0\<close> the units of
  a paint code in it are the first \<open>batch_size\<close> times (number of batches of that paint)
  units of that paint in the table, all of them when there are fewer: a batch for which
  too few units remain takes those that remain.
\<close>

theorem assignment_takes_what_remains:
  assumes "batch_sequence \<noteq> []"
  shows "\<exists>solution_df.
     assign_vehicles_to_batches batch_size vehicles_df batch_sequence = Inr solution_df \<and>
     (0 \<le> batch_size \<and> distinct (map vin vehicles_df) \<longrightarrow>
        (\<forall>c. map s_vin (filter (\<lambda>r. s_paint r = Some c) solution_df) =
           take (nat batch_size * length (filter (\<lambda>b. b_paint_code b = c) batch_sequence))
             (map vin (filter (\<lambda>v. paint v = Some c) vehicles_df))))"
proof -
  define sol where "sol = fst (assign_loop batch_size vehicles_df
      (sort_key batch_position batch_sequence) ([], 1))"
  have r: "assign_vehicles_to_batches batch_size vehicles_df batch_sequence = Inr sol"
    using assms by (simp add: assign_vehicles_to_batches_def sol_def)
  have "map s_vin (filter (\<lambda>r. s_paint r = Some c) sol) =
           take (nat batch_size * length (filter (\<lambda>b. b_paint_code b = c) batch_sequence))
             (map vin (filter (\<lambda>v. paint v = Some c) vehicles_df))"
    if "0 \<le> batch_size" and "distinct (map vin vehicles_df)" for c
  proof -
    have "filled batch_size vehicles_df
        (\<lambda>c. 0 + length (filter (\<lambda>b. b_paint_code b = c) (sort_key batch_position batch_sequence)))
        sol"
      unfolding sol_def by (rule filled_loop [OF that(2,1) filled_start])
    then show ?thesis
      by (simp add: filled_def length_filter_sort_key)
  qed
  with r show ?thesis
    by blast
qed

lemma surplus_assignment:
  "assign_vehicles_to_batches 2 example_vehicles surplus_batches = Inr example_solution"
  by code_simp

theorem assignment_takes_what_remains_witness:
  "surplus_batches \<noteq> [] \<and> (0 :: int) \<le> 2 \<and> distinct (map vin example_vehicles) \<and>
   assign_vehicles_to_batches 2 example_vehicles surplus_batches = Inr example_solution \<and>
   map s_vin (filter (\<lambda>r. s_paint r = Some ''B'') example_solution) =
     take (nat 2 * length (filter (\<lambda>b. b_paint_code b = ''B'') surplus_batches))
       (map vin (filter (\<lambda>v. paint v = Some ''B'') example_vehicles))"
proof -
  have n: "surplus_batches \<noteq> []"
    by (simp add: surplus_batches_def)
  have d: "distinct (map vin example_vehicles)"
    by (simp add: example_vehicles_def)
  from assignment_takes_what_remains [OF n, of 2 example_vehicles] d
  have "map s_vin (filter (\<lambda>r. s_paint r = Some ''B'') example_solution) =
     take (nat 2 * length (filter (\<lambda>b. b_paint_code b = ''B'') surplus_batches))
       (map vin (filter (\<lambda>v. paint v = Some ''B'') example_vehicles))"
    unfolding surplus_assignment by auto
  with n d surplus_assignment show ?thesis
    by simp
qed

text \<open>
  C8, as the claim states it, fails: paint B has one vehicle and two batches; the
  fourth batch gets no unit and the assignment returns the four units all the same.
\<close>

theorem assignment_shortfall_counterexample:
  "assign_vehicles_to_batches 2 example_vehicles surplus_batches = Inr example_solution \<and>
   length (filter (\<lambda>v. paint v = Some ''B'') example_vehicles) = 1 \<and>
   length (filter (\<lambda>b. b_paint_code b = ''B'') surplus_batches) = 2 \<and>
   length (filter (\<lambda>r. s_batch_id r = 4) example_solution) = 0"
  by code_simp

subsection \<open>The metrics\<close>

text \<open>
  On a unit sequence in which every row has a paint code, the loop of the metrics records one
  position for every place at which the paint code differs from the one of the row before. Its
  guard \<open>prev_paint is not None\<close> keeps the first row out of the count.
\<close>

lemma changeover_loop_after:
  assumes "\<forall>r \<in> set rows. s_paint r \<noteq> None" and "p \<noteq> None"
  shows "length (changeover_loop rows (Some p) acc)
         = length acc + transitions (p # map s_paint rows)"
  using assms
proof (induction rows arbitrary: p acc)
  case Nil
  then show ?case by simp
next
  case (Cons r rest)
  then have r: "s_paint r \<noteq> None" and rest: "\<forall>r \<in> set rest. s_paint r \<noteq> None"
    by simp_all
  show ?case
    using Cons.prems(2) r Cons.IH [OF rest r] by simp
qed

lemma changeover_loop_count:
  assumes "\<forall>r \<in> set rows. s_paint r \<noteq> None"
  shows "length (changeover_loop rows None []) = transitions (map s_paint rows)"
proof (cases rows)
  case Nil
  then show ?thesis by simp
next
  case (Cons r rest)
  with assms have "s_paint r \<noteq> None" and "\<forall>r \<in> set rest. s_paint r \<noteq> None"
    by simp_all
  from changeover_loop_after [OF this(2,1), of "[]"] Cons show ?thesis
    by simp
qed

lemma transitions_replicate:
  "0 < n \<Longrightarrow> transitions (replicate n c @ ys) = transitions (c # ys)"
proof (induction n)
  case 0
  then show ?case by simp
next
  case (Suc m)
  show ?case
  proof (cases m)
    case 0
    then show ?thesis by simp
  next
    case (Suc k)
    then have "replicate (Suc m) c @ ys = c # c # (replicate k c @ ys)"
      by simp
    then have "transitions (replicate (Suc m) c @ ys) = transitions (c # (replicate k c @ ys))"
      by simp
    also have "\<dots> = transitions (replicate m c @ ys)"
      using Suc by simp
    also have "\<dots> = transitions (c # ys)"
      using Suc Suc.IH by simp
    finally show ?thesis .
  qed
qed

lemma transitions_blocks:
  assumes "\<forall>(b, n) \<in> set bns. 0 < n"
  shows "transitions (concat (map (\<lambda>(b, n). replicate n (f b)) bns))
         = transitions (map (\<lambda>(b, n). f b) bns)"
  using assms
proof (induction bns)
  case Nil
  then show ?case by simp
next
  case (Cons bn rest)
  obtain b n where bn: "bn = (b, n)"
    by (cases bn)
  have n: "0 < n" and r: "\<forall>(b, n) \<in> set rest. 0 < n"
    using Cons.prems bn by auto
  have 1: "transitions (concat (map (\<lambda>(b, n). replicate n (f b)) (bn # rest)))
        = transitions (f b # concat (map (\<lambda>(b, n). replicate n (f b)) rest))"
    using n by (simp add: bn transitions_replicate)
  show ?case
  proof (cases rest)
    case Nil
    with 1 show ?thesis by (simp add: bn)
  next
    case (Cons bn' rest')
    obtain b' n' where bn': "bn' = (b', n')"
      by (cases bn')
    have n': "0 < n'"
      using r Cons bn' by auto
    then obtain k where k: "n' = Suc k"
      by (cases n') auto
    have "concat (map (\<lambda>(b, n). replicate n (f b)) rest)
        = f b' # (replicate k (f b') @ concat (map (\<lambda>(b, n). replicate n (f b)) rest'))"
      by (simp add: Cons bn' k)
    then have "transitions (f b # concat (map (\<lambda>(b, n). replicate n (f b)) rest))
        = (if f b \<noteq> f b' then 1 else 0)
          + transitions (concat (map (\<lambda>(b, n). replicate n (f b)) rest))"
      by simp
    also have "\<dots> = (if f b \<noteq> f b' then 1 else 0) + transitions (map (\<lambda>(b, n). f b) rest)"
      using Cons.IH [OF r] by simp
    also have "\<dots> = transitions (map (\<lambda>(b, n). f b) (bn # rest))"
      by (simp add: bn Cons bn')
    finally show ?thesis
      using 1 by simp
  qed
qed

lemma transitions_map_inj:
  "inj f \<Longrightarrow> transitions (map f xs) = transitions xs"
  by (induction xs rule: transitions.induct) (auto dest: injD)

lemma transitions_positions:
  "transitions xs = length (filter (\<lambda>s. xs ! Suc s \<noteq> xs ! s) [0..<length xs - 1])"
proof (induction xs rule: transitions.induct)
  case (1 a b xs)
  have u: "[0..<Suc (length xs)] = 0 # map Suc [0..<length xs]"
    by (simp add: upt_conv_Cons map_Suc_upt del: upt_Suc)
  have "length (filter (\<lambda>s. (a # b # xs) ! Suc s \<noteq> (a # b # xs) ! s) [0..<Suc (length xs)])
        = (if a \<noteq> b then 1 else 0)
          + length (filter (\<lambda>s. (b # xs) ! Suc s \<noteq> (b # xs) ! s) [0..<length xs])"
    unfolding u by (auto simp: filter_map o_def)
  with 1 show ?case
    by simp
qed simp_all

text \<open>
  The assignment writes one block of rows for every batch, in the order of the batches: the rows
  of a block carry the paint code of the batch and its position plus one as batch id. A block is
  empty when no vehicle of the paint is left.
\<close>

lemma map_constant:
  "(\<forall>x \<in> set xs. f x = c) \<Longrightarrow> map f xs = replicate (length xs) c"
  by (induction xs) auto

lemma assign_loop_columns:
  "\<exists>ns. length ns = length batches \<and>
     map s_paint (fst (assign_loop bs vdf batches (va, cs)))
       = map s_paint va @
         concat (map (\<lambda>(b, n). replicate n (Some (b_paint_code b))) (zip batches ns)) \<and>
     map s_batch_id (fst (assign_loop bs vdf batches (va, cs)))
       = map s_batch_id va @
         concat (map (\<lambda>(b, n). replicate n (batch_position b + 1)) (zip batches ns))"
proof (induction batches arbitrary: va cs)
  case Nil
  then show ?case by simp
next
  case (Cons batch rest)
  define vs where "vs = paint_vehicles bs vdf va (b_paint_code batch)"
  define va' where "va' = va @ batch_rows (batch_position batch) cs vs"
  obtain ns where ns: "length ns = length rest"
    and p: "map s_paint (fst (assign_loop bs vdf rest (va', cs + int (length vs))))
       = map s_paint va' @
         concat (map (\<lambda>(b, n). replicate n (Some (b_paint_code b))) (zip rest ns))"
    and i: "map s_batch_id (fst (assign_loop bs vdf rest (va', cs + int (length vs))))
       = map s_batch_id va' @
         concat (map (\<lambda>(b, n). replicate n (batch_position b + 1)) (zip rest ns))"
    using Cons.IH [of va' "cs + int (length vs)"] by blast
  have step: "assign_loop bs vdf (batch # rest) (va, cs)
        = assign_loop bs vdf rest (va', cs + int (length vs))"
    unfolding assign_loop_step va'_def vs_def by (rule refl)
  have "\<forall>v \<in> set vs. paint v = Some (b_paint_code batch)"
    by (simp add: vs_def paint_vehicles_paint)
  then have pv: "map paint vs = replicate (length vs) (Some (b_paint_code batch))"
    by (rule map_constant)
  have p': "map s_paint va' = map s_paint va @ replicate (length vs) (Some (b_paint_code batch))"
    by (simp add: va'_def pv)
  have i': "map s_batch_id va' = map s_batch_id va @ replicate (length vs) (batch_position batch + 1)"
    by (simp add: va'_def)
  show ?case
    unfolding step p i p' i'
    by (rule exI [of _ "length vs # ns"]) (simp add: ns)
qed

lemma sum_list_indicator:
  "(\<Sum>x\<leftarrow>xs. if P x then 1 else 0) = real (length (filter P xs))"
  by (induction xs) auto

lemma changeover_values:
  assumes "length codes = Suc k" and "v (Y 0) = 1"
    and "\<forall>s. 0 < s \<and> s < Suc k \<longrightarrow>
           v (Y s) = (if codes ! s \<noteq> codes ! (s - 1) then 1 else 0)"
  shows "(\<Sum>s\<leftarrow>[0..<Suc k]. v (Y s)) = 1 + real (transitions codes)"
    and "length (filter (\<lambda>b. 0.5 < v (Y b)) [0..<Suc k]) = 1 + transitions codes"
proof -
  have u: "[0..<Suc k] = 0 # map Suc [0..<k]"
    by (simp add: upt_conv_Cons map_Suc_upt del: upt_Suc)
  have t: "v (Y (Suc s)) = (if codes ! Suc s \<noteq> codes ! s then 1 else 0)" if "s < k" for s
    using assms(3) that by (auto dest: spec [of _ "Suc s"])
  have tr: "transitions codes = length (filter (\<lambda>s. codes ! Suc s \<noteq> codes ! s) [0..<k])"
    using transitions_positions [of codes] assms(1) by simp
  have "(\<Sum>s\<leftarrow>[0..<k]. v (Y (Suc s)))
        = (\<Sum>s\<leftarrow>[0..<k]. if codes ! Suc s \<noteq> codes ! s then 1 else 0)"
    by (rule arg_cong [of _ _ sum_list], rule map_cong) (simp_all add: t)
  then show "(\<Sum>s\<leftarrow>[0..<Suc k]. v (Y s)) = 1 + real (transitions codes)"
    unfolding u by (simp add: o_def assms(2) sum_list_indicator tr)
  have "filter (\<lambda>s. 0.5 < v (Y (Suc s))) [0..<k]
        = filter (\<lambda>s. codes ! Suc s \<noteq> codes ! s) [0..<k]"
    by (rule filter_cong) (simp_all add: t)
  then show "length (filter (\<lambda>b. 0.5 < v (Y b)) [0..<Suc k]) = 1 + transitions codes"
    unfolding u by (simp add: filter_map o_def assms(2) tr)
qed

lemma full_extraction_positions:
  assumes "length (extract_solution v paint_codes n_total) = nat n_total"
  shows "map batch_position (extract_solution v paint_codes n_total) = map int [0..<nat n_total]"
proof -
  let ?P = "\<lambda>b. \<exists>c \<in> set paint_codes. 0.5 < v (X c b)"
  have "length (filter ?P [0..<nat n_total]) = length [0..<nat n_total]"
    using assms arg_cong [OF extract_positions [of v paint_codes n_total], of length] by simp
  then have "filter ?P [0..<nat n_total] = [0..<nat n_total]"
    unfolding length_filter_all filter_id_conv .
  then show ?thesis
    using extract_positions [of v paint_codes n_total] by simp
qed

lemma metrics_total_changeovers:
  assumes "solution_df \<noteq> []"
  shows "\<exists>m. generate_summary_metrics (Some solution_df) = Inr m \<and>
           total_changeovers m = length (changeover_loop solution_df None [])"
  using assms by (cases solution_df) (simp_all add: generate_summary_metrics_def Let_def)

lemma example_metrics:
  "map_sum id total_changeovers (generate_summary_metrics (Some example_solution)) = Inr 2"
  by code_simp

lemma example_y_sum:
  "(\<Sum>s\<leftarrow>[0..<nat 3]. example_values (Y s)) = 3 \<and> count_changeovers example_values 3 = 3"
  by code_simp


text \<open>
  Claim C3, as stated, does not hold. The small run is a solved model with tight \<open>y\<close>: the
  values satisfy every constraint of the model, the slots hold the paints A, B, A, and
  \<open>y[0] = y[1] = y[2] = 1\<close>. The sum of the \<open>y[s]\<close> is 3, and so is the count that
  \<open>optimize_sequence_milp\<close> reports, whereas the metrics computed over the realized unit
  sequence (paints A, A, B, A) count 2 changeovers: the setup of the first slot is no change
  between two units.
\<close>

theorem metrics_changeovers_counterexample:
  "feasible example_values (projr (build_model example_summary)) \<and>
   extract_solution example_values [''A'', ''B''] 3 = example_batches \<and>
   assign_vehicles_to_batches 2 example_vehicles example_batches = Inr example_solution \<and>
   example_values (Y 0) = 1 \<and> example_values (Y 1) = 1 \<and> example_values (Y 2) = 1 \<and>
   map_sum id total_changeovers (generate_summary_metrics (Some example_solution)) = Inr 2 \<and>
   (\<Sum>s\<leftarrow>[0..<nat 3]. example_values (Y s)) = 3 \<and>
   count_changeovers example_values 3 = 3"
proof -
  have "extract_solution example_values [''A'', ''B''] 3 = example_batches \<and>
   assign_vehicles_to_batches 2 example_vehicles example_batches = Inr example_solution \<and>
   example_values (Y 0) = 1 \<and> example_values (Y 1) = 1 \<and> example_values (Y 2) = 1 \<and>
   map_sum id total_changeovers (generate_summary_metrics (Some example_solution)) = Inr 2 \<and>
   (\<Sum>s\<leftarrow>[0..<nat 3]. example_values (Y s)) = 3 \<and>
   count_changeovers example_values 3 = 3"
    by code_simp
  with example_feasible show ?thesis
    by (rule conjI)
qed

text \<open>
  Claim C3, amended. Let the values of a solved model be tight (\<open>y[0] = 1\<close> and, for
  \<open>s \<ge> 1\<close>, \<open>y[s] = 1\<close> when the paint code of slot \<open>s\<close> differs from the one of slot
  \<open>s - 1\<close>, and \<open>y[s] = 0\<close> otherwise), let every slot have a paint code in the extracted batch
  sequence, and let every batch have received at least one unit in the realized unit sequence.
  Then the metrics are computed, and their changeover count equals the sum over all slots
  \<open>s\<close> of \<open>y[s]\<close> minus one, which is also one less than the count reported by
  \<open>optimize_sequence_milp\<close>: the metrics do not count the setup of the first slot.
\<close>

theorem metrics_changeovers_without_setup:
  assumes ext: "batch_sequence = extract_solution v paint_codes n_total"
    and full: "length batch_sequence = nat n_total"
    and pos: "0 < n_total"
    and y0: "v (Y 0) = 1"
    and tight: "\<forall>s. 0 < s \<and> s < nat n_total \<longrightarrow>
        v (Y s) = (if b_paint_code (batch_sequence ! s) \<noteq> b_paint_code (batch_sequence ! (s - 1))
                   then 1 else 0)"
    and asg: "assign_vehicles_to_batches batch_size vehicles_df batch_sequence = Inr solution_df"
    and every: "\<forall>s < nat n_total. \<exists>r \<in> set solution_df. s_batch_id r = int s + 1"
  shows "\<exists>m. generate_summary_metrics (Some solution_df) = Inr m \<and>
           real (total_changeovers m) = (\<Sum>s\<leftarrow>[0..<nat n_total]. v (Y s)) - 1 \<and>
           int (total_changeovers m) = count_changeovers v n_total - 1"
proof -
  obtain k where k: "nat n_total = Suc k"
    using pos by (cases "nat n_total") auto
  define codes where "codes = map b_paint_code batch_sequence"
  have lc: "length codes = Suc k"
    by (simp add: codes_def full k)
  have positions: "map batch_position batch_sequence = map int [0..<nat n_total]"
    using full unfolding ext by (rule full_extraction_positions)
  have position: "batch_position (batch_sequence ! j) = int j" if "j < nat n_total" for j
    using arg_cong [OF positions, of "\<lambda>xs. xs ! j"] that full by simp
  have "sorted (map batch_position batch_sequence)"
    unfolding positions by (simp add: sorted_map)
  then have sorted: "sort_key batch_position batch_sequence = batch_sequence"
    by (rule sort_key_id_if_sorted)
  have sol: "solution_df = fst (assign_loop batch_size vehicles_df batch_sequence ([], 1))"
    using asg by (simp add: assign_vehicles_to_batches_def sorted split: if_splits)
  obtain ns where ns: "length ns = length batch_sequence"
    and paints: "map s_paint solution_df
       = concat (map (\<lambda>(b, n). replicate n (Some (b_paint_code b))) (zip batch_sequence ns))"
    and ids: "map s_batch_id solution_df
       = concat (map (\<lambda>(b, n). replicate n (batch_position b + 1)) (zip batch_sequence ns))"
    using assign_loop_columns [of batch_sequence batch_size vehicles_df "[]" 1]
    unfolding sol by auto
  have filled: "0 < n" if mem: "(b, n) \<in> set (zip batch_sequence ns)" for b n
  proof -
    obtain j where j: "j < nat n_total" "b = batch_sequence ! j" "n = ns ! j"
      using mem ns full by (auto simp: set_zip)
    obtain r where "r \<in> set solution_df" "s_batch_id r = int j + 1"
      using every j(1) by blast
    then have "int j + 1 \<in> set (map s_batch_id solution_df)"
      by force
    then obtain b' n' where b': "(b', n') \<in> set (zip batch_sequence ns)"
      "int j + 1 \<in> set (replicate n' (batch_position b' + 1))"
      unfolding ids by auto
    then obtain i where i: "i < nat n_total" "b' = batch_sequence ! i" "n' = ns ! i"
      using ns full by (auto simp: set_zip)
    from b'(2) have "0 < n'" and "batch_position b' = int j"
      by (auto split: if_splits)
    with i position [OF i(1)] have "i = j"
      by simp
    with i j \<open>0 < n'\<close> show ?thesis
      by simp
  qed
  have some: "\<forall>r \<in> set solution_df. s_paint r \<noteq> None"
  proof
    fix r assume "r \<in> set solution_df"
    then have "s_paint r \<in> set (map s_paint solution_df)"
      by simp
    then show "s_paint r \<noteq> None"
      unfolding paints by auto
  qed
  have "solution_df \<noteq> []"
    using every k by auto
  then obtain m where m: "generate_summary_metrics (Some solution_df) = Inr m"
    and tc: "total_changeovers m = length (changeover_loop solution_df None [])"
    using metrics_total_changeovers by blast
  have "total_changeovers m = transitions (map s_paint solution_df)"
    unfolding tc by (rule changeover_loop_count [OF some])
  also have "\<dots> = transitions (map (\<lambda>(b, n). Some (b_paint_code b)) (zip batch_sequence ns))"
    unfolding paints by (rule transitions_blocks) (use filled in auto)
  also have "map (\<lambda>(b, n). Some (b_paint_code b)) (zip batch_sequence ns)
      = map Some (map b_paint_code (map fst (zip batch_sequence ns)))"
    by (simp add: o_def case_prod_unfold)
  also have "map fst (zip batch_sequence ns) = batch_sequence"
    using ns by simp
  also have "transitions (map Some (map b_paint_code batch_sequence)) = transitions codes"
    unfolding codes_def by (rule transitions_map_inj) simp
  finally have t: "total_changeovers m = transitions codes" .
  have tight': "\<forall>s. 0 < s \<and> s < Suc k \<longrightarrow>
      v (Y s) = (if codes ! s \<noteq> codes ! (s - 1) then 1 else 0)"
  proof (intro allI impI)
    fix s assume s: "0 < s \<and> s < Suc k"
    then have "s < length batch_sequence" and "s - 1 < length batch_sequence"
      using full k by arith+
    then have "codes ! s = b_paint_code (batch_sequence ! s)"
      and "codes ! (s - 1) = b_paint_code (batch_sequence ! (s - 1))"
      unfolding codes_def by (simp_all only: nth_map)
    with tight s k show "v (Y s) = (if codes ! s \<noteq> codes ! (s - 1) then 1 else 0)"
      by simp
  qed
  from changeover_values [OF lc y0 tight']
  have "(\<Sum>s\<leftarrow>[0..<nat n_total]. v (Y s)) = 1 + real (transitions codes)"
    and "count_changeovers v n_total = 1 + int (transitions codes)"
    by (simp_all add: k count_changeovers_def)
  with m t show ?thesis
    by auto
qed


theorem metrics_changeovers_without_setup_witness:
  "extract_solution example_values [''A'', ''B''] 3 = example_batches \<and>
   assign_vehicles_to_batches 2 example_vehicles example_batches = Inr example_solution \<and>
   (\<exists>m. generate_summary_metrics (Some example_solution) = Inr m \<and>
      real (total_changeovers m) = (\<Sum>s\<leftarrow>[0..<nat 3]. example_values (Y s)) - 1 \<and>
      int (total_changeovers m) = count_changeovers example_values 3 - 1)"
proof -
  have ext: "example_batches = extract_solution example_values [''A'', ''B''] 3"
    by (simp add: example_extraction example_batches_def)
  have full: "length example_batches = nat 3"
    by (simp add: example_batches_def)
  have y0: "example_values (Y 0) = 1"
    by (simp add: example_values_def)
  have tight: "\<forall>s. 0 < s \<and> s < nat 3 \<longrightarrow>
        example_values (Y s) =
          (if b_paint_code (example_batches ! s) \<noteq> b_paint_code (example_batches ! (s - 1))
           then 1 else 0)"
  proof (intro allI impI)
    fix s :: nat assume "0 < s \<and> s < nat 3"
    then have "s = 1 \<or> s = 2"
      by auto
    then show "example_values (Y s) =
          (if b_paint_code (example_batches ! s) \<noteq> b_paint_code (example_batches ! (s - 1))
           then 1 else 0)"
      by (auto simp: example_values_def example_batches_def)
  qed
  have every: "\<forall>s < nat 3. \<exists>r \<in> set example_solution. s_batch_id r = int s + 1"
  proof (intro allI impI)
    fix s :: nat assume "s < nat 3"
    then have "s = 0 \<or> s = 1 \<or> s = 2"
      by auto
    then show "\<exists>r \<in> set example_solution. s_batch_id r = int s + 1"
      by (auto simp: example_solution_def)
  qed
  from metrics_changeovers_without_setup
    [OF ext full _ y0 tight example_assignment every]
  have "\<exists>m. generate_summary_metrics (Some example_solution) = Inr m \<and>
      real (total_changeovers m) = (\<Sum>s\<leftarrow>[0..<nat 3]. example_values (Y s)) - 1 \<and>
      int (total_changeovers m) = count_changeovers example_values 3 - 1"
    by simp
  with ext example_assignment show ?thesis
    by simp
qed

subsection \<open>Timestamps\<close>

lemma map_snd_enumerate_comp:
  "map (\<lambda>x. f (snd x)) (enumerate n xs) = map f xs"
  by (induction xs arbitrary: n) auto

text \<open>
  C10. \<^verbatim>\<open>update_timestamps\<close> writes the timestamp column only: the VIN, the paint, the
  batch id, the new and the original sequence index of every row, the order of the
  rows and their number are the same after the call.
\<close>

theorem update_timestamps_frame:
  "map s_vin (update_timestamps vehicles_df solution_df start_datetime increment_minutes)
     = map s_vin solution_df \<and>
   map s_paint (update_timestamps vehicles_df solution_df start_datetime increment_minutes)
     = map s_paint solution_df \<and>
   map s_batch_id (update_timestamps vehicles_df solution_df start_datetime increment_minutes)
     = map s_batch_id solution_df \<and>
   map s_production_sequence
       (update_timestamps vehicles_df solution_df start_datetime increment_minutes)
     = map s_production_sequence solution_df \<and>
   map s_original_sequence
       (update_timestamps vehicles_df solution_df start_datetime increment_minutes)
     = map s_original_sequence solution_df \<and>
   length (update_timestamps vehicles_df solution_df start_datetime increment_minutes)
     = length solution_df"
  unfolding update_timestamps_def Let_def
  by (simp add: o_def case_prod_unfold map_snd_enumerate_comp)

end
